theory Spec2Isabelle
  imports Complex_Main "HOL-Library.Word" "HOL-Library.Log_Nat"
begin

section \<open>The soft limiter of include/soft\_limiter.h\<close>

text \<open>
  The class \<open>SoftLimiter<array_frames>\<close> turns a block of interleaved stereo
  \<open>float\<close> samples into a block of \<open>int16_t\<close> samples. The embedding follows the
  header function by function.

  Numbers. \<open>float\<close> and \<open>double\<close> are modelled by \<open>real\<close>: every arithmetic
  operation is exact, there is no rounding, no infinity and no NaN. The one place
  where a property below depends on the rounded result, the subtraction of the
  release step, has a second embedding that rounds to binary32. \<open>int16_t\<close>,
  \<open>uint16_t\<close> and \<open>int\<close> are \<open>16 word\<close>, \<open>16 word\<close> and \<open>32 word\<close>; \<open>sint\<close> reads
  the signed ones. \<open>++limited_ms\<close> wraps in the model as two's complement hardware
  does (the language leaves the overflow undefined).

  Iterators. An iterator into \<open>in\<close> or \<open>out\<close> is its offset from \<open>begin()\<close>, an
  \<open>int\<close>, since \<open>in.end() - (side + 2)\<close> can lie before \<open>begin()\<close>. The null
  iterator of a fresh instance is \<open>None\<close>.

  Undefined behaviour is an error value: a conversion \<open>static_cast<int16_t>(x)\<close> whose
  truncated value does not fit the type, a read or write outside an array, a
  dereferenced null iterator. \<open>assert\<close> is taken as enabled and its failure is an
  error value as well.
\<close>

datatype error = AssertionFailed | CastOutOfRange | OutOfBounds | NullIterator

text \<open>\<open>AudioFrame\<close> of mixer.h: a pair of floats.\<close>

record AudioFrame =
  left :: real
  right :: real

text \<open>The data members of the class. \<open>prescale\<close> is a reference to a frame owned by
  the caller; the limiter only reads it.\<close>

record limiter =
  out :: "16 word list"
  channel_name :: string
  prescale :: AudioFrame
  limit_scale :: AudioFrame
  peak :: AudioFrame
  tail :: AudioFrame
  peak_pos_left :: "int option"
  peak_pos_right :: "int option"
  limited_ms :: "32 word"
  non_limited_ms :: "32 word"
  remaining_incr_left :: "16 word"
  remaining_incr_right :: "16 word"

definition upper_bound :: real where
  "upper_bound = 32767"

definition lower_bound :: real where
  "lower_bound = - 32768"

definition LEFT :: nat where
  "LEFT = 0"

definition RIGHT :: nat where
  "RIGHT = 1"

text \<open>The constructor. The member \<open>out\<close> has no initialiser, so its first content
  \<open>out0\<close> is whatever the storage holds; the template parameter is its length
  divided by two.\<close>

definition SoftLimiter :: "16 word list \<Rightarrow> string \<Rightarrow> AudioFrame \<Rightarrow> limiter" where
  "SoftLimiter out0 name scale =
     \<lparr> out = out0,
       channel_name = name,
       prescale = scale,
       limit_scale = \<lparr> left = 1, right = 1 \<rparr>,
       peak = \<lparr> left = 1, right = 1 \<rparr>,
       tail = \<lparr> left = 0, right = 0 \<rparr>,
       peak_pos_left = None,
       peak_pos_right = None,
       limited_ms = 0,
       non_limited_ms = 0,
       remaining_incr_left = 0,
       remaining_incr_right = 0 \<rparr>"

text \<open>The template parameter \<open>array_frames\<close> fixes the size of both arrays; the
  two \<open>static_assert\<close>s of the constructor bound it.\<close>

definition well_sized :: "nat \<Rightarrow> limiter \<Rightarrow> real list \<Rightarrow> bool" where
  "well_sized array_frames s inp =
     (0 < array_frames \<and> array_frames < 16384 \<and>
      length inp = array_frames * 2 \<and> length (out s) = array_frames * 2)"

subsection \<open>Conversions\<close>

text \<open>\<open>static_cast<int16_t>(x)\<close> for a float \<open>x\<close>: the fractional part is discarded
  (truncation towards zero); the behaviour is undefined when the truncated value
  is not representable.\<close>

definition trunc_zero :: "real \<Rightarrow> int" where
  "trunc_zero x = (if 0 \<le> x then \<lfloor>x\<rfloor> else \<lceil>x\<rceil>)"

definition cast_int16 :: "real \<Rightarrow> error + 16 word" where
  "cast_int16 x =
     (let t = trunc_zero x
      in if - 32768 \<le> t \<and> t \<le> 32767 then Inr (word_of_int t) else Inl CastOutOfRange)"

text \<open>\<open>static_cast<float>(v)\<close> for an \<open>int16_t\<close>.\<close>

definition float_of_int16 :: "16 word \<Rightarrow> real" where
  "float_of_int16 w = real_of_int (sint w)"

subsection \<open>ScaleSide\<close>

text \<open>The loop \<open>while (in_pos <= in_pos_last)\<close> with both iterators advanced by two.\<close>

function ScaleSide ::
  "real list \<Rightarrow> int \<Rightarrow> int \<Rightarrow> 16 word list \<Rightarrow> int \<Rightarrow> real \<Rightarrow> real \<Rightarrow> error + 16 word list"
where
  "ScaleSide inp in_pos in_pos_last outp out_pos poly_add poly_mult =
     (if in_pos \<le> in_pos_last then
        (if in_pos < 0 \<or> int (length inp) \<le> in_pos \<or>
            out_pos < 0 \<or> int (length outp) \<le> out_pos
         then Inl OutOfBounds
         else
           (case cast_int16 (poly_add + (inp ! nat in_pos) * poly_mult) of
              Inl e \<Rightarrow> Inl e
            | Inr v \<Rightarrow>
                ScaleSide inp (in_pos + 2) in_pos_last (outp[nat out_pos := v])
                  (out_pos + 2) poly_add poly_mult))
      else Inr outp)"
  by pat_completeness auto
termination
  by (relation "measure (\<lambda>(inp, in_pos, in_pos_last, outp, out_pos, a, m).
        nat (in_pos_last + 1 - in_pos))") auto

subsection \<open>TriageSignal\<close>

text \<open>The reference parameters \<open>out\<close>, \<open>existing\<close> and \<open>scale\<close> are returned updated;
  \<open>local\<close> is a temporary of the caller and is not read after the call.\<close>

definition TriageSignal ::
  "real list \<Rightarrow> 16 word list \<Rightarrow> nat \<Rightarrow> real \<Rightarrow> int option \<Rightarrow> real \<Rightarrow> real \<Rightarrow> real \<Rightarrow> real
     \<Rightarrow> error + (16 word list \<times> real \<times> real)"
where
  "TriageSignal inp outp side local0 last_pos pre existing add scale =
     (let local = local0 * pre in
      if local > existing \<and> local > upper_bound then
        (let existing' = local;
             mult = (upper_bound - add) / (local - add)
         in case last_pos of
              None \<Rightarrow> Inl NullIterator
            | Some lp \<Rightarrow>
               (case ScaleSide inp (0 + int side) lp outp (0 + int side) add mult of
                  Inl e \<Rightarrow> Inl e
                | Inr out1 \<Rightarrow>
                   (let scale' = upper_bound / existing'
                    in case ScaleSide inp (lp + int side + 2)
                              (int (length inp) - (int side + 2))
                              out1 (0 + (lp - 0) + int side + 2) 0 scale' of
                         Inl e \<Rightarrow> Inl e
                       | Inr out2 \<Rightarrow> Inr (out2, existing', scale'))))
      else if existing > upper_bound then
        (let scale' = upper_bound / existing
         in case ScaleSide inp (0 + int side) (int (length inp) - (int side + 2))
                   outp (0 + int side) 0 scale' of
              Inl e \<Rightarrow> Inl e
            | Inr out1 \<Rightarrow> Inr (out1, existing, scale'))
      else
        (case ScaleSide inp (0 + int side) (int (length inp) - (int side + 2))
                outp (0 + int side) 0 1 of
           Inl e \<Rightarrow> Inl e
         | Inr out1 \<Rightarrow> Inr (out1, existing, scale)))"

subsection \<open>FindPeaks\<close>

text \<open>The scanning loop: \<open>pos\<close> runs over the first \<open>samples\<close> slots, two per round;
  a later value replaces the local peak only when strictly larger.\<close>

function FindPeaks_loop ::
  "real list \<Rightarrow> nat \<Rightarrow> nat \<Rightarrow> AudioFrame \<Rightarrow> int option \<Rightarrow> int option
     \<Rightarrow> error + (AudioFrame \<times> int option \<times> int option)"
where
  "FindPeaks_loop inp pos pos_end local_peak ppl ppr =
     (if pos < pos_end then
        (if length inp \<le> pos + 1 then Inl OutOfBounds
         else
           (let val_left = \<bar>inp ! pos\<bar>;
                new_left = val_left > left local_peak;
                local_peak1 = (if new_left then local_peak\<lparr>left := val_left\<rparr> else local_peak);
                ppl1 = (if new_left then Some (int pos) else ppl);
                val_right = \<bar>inp ! (pos + 1)\<bar>;
                new_right = val_right > right local_peak1;
                local_peak2 = (if new_right then local_peak1\<lparr>right := val_right\<rparr> else local_peak1);
                ppr1 = (if new_right then Some (int (pos + 1)) else ppr)
            in FindPeaks_loop inp (pos + 2) pos_end local_peak2 ppl1 ppr1))
      else Inr (local_peak, ppl, ppr))"
  by pat_completeness auto
termination
  by (relation "measure (\<lambda>(inp, pos, pos_end, lp, ppl, ppr). pos_end - pos)") auto

definition FindPeaks :: "limiter \<Rightarrow> real list \<Rightarrow> 16 word \<Rightarrow> error + limiter" where
  "FindPeaks s inp samples =
     (case FindPeaks_loop inp 0 (0 + unat samples) \<lparr> left = 0, right = 0 \<rparr>
             (peak_pos_left s) (peak_pos_right s) of
        Inl e \<Rightarrow> Inl e
      | Inr (local_peak, ppl, ppr) \<Rightarrow>
         (case TriageSignal inp (out s) LEFT (left local_peak) ppl
                 (left (prescale s)) (left (peak s)) (left (tail s)) (left (limit_scale s)) of
            Inl e \<Rightarrow> Inl e
          | Inr (out1, peak_l, scale_l) \<Rightarrow>
             (case TriageSignal inp out1 RIGHT (right local_peak) ppr
                     (right (prescale s)) (right (peak s)) (right (tail s))
                     (right (limit_scale s)) of
                Inl e \<Rightarrow> Inl e
              | Inr (out2, peak_r, scale_r) \<Rightarrow>
                 Inr (s\<lparr> out := out2,
                         peak := \<lparr> left = peak_l, right = peak_r \<rparr>,
                         limit_scale := \<lparr> left = scale_l, right = scale_r \<rparr>,
                         peak_pos_left := ppl,
                         peak_pos_right := ppr \<rparr>))))"

subsection \<open>SaveTailFrame, Release, Apply\<close>

text \<open>\<open>offset = (req_frames - 1) * 2\<close> is computed in \<open>int\<close> and \<open>size_t\<close>, where it
  cannot wrap.\<close>

definition SaveTailFrame :: "limiter \<Rightarrow> 16 word \<Rightarrow> error + limiter" where
  "SaveTailFrame s req_frames =
     (if req_frames \<noteq> 0 then
        (let offset = (unat req_frames - 1) * 2
         in if length (out s) \<le> offset + 1 then Inl OutOfBounds
            else Inr (s\<lparr> tail := \<lparr> left = float_of_int16 (out s ! offset),
                                    right = float_of_int16 (out s ! (offset + 1)) \<rparr> \<rparr>))
      else Inr (s\<lparr> tail := \<lparr> left = 0, right = 0 \<rparr> \<rparr>))"

definition delta_db :: real where
  "delta_db = 0.002709201"

definition release_amplitude :: real where
  "release_amplitude = upper_bound * delta_db"

definition Release :: "limiter \<Rightarrow> limiter" where
  "Release s =
     (let s1 = s\<lparr> limited_ms := limited_ms s + 1 \<rparr>;
          s2 = (if left (peak s1) > upper_bound
                then s1\<lparr> peak := (peak s1)\<lparr> left := left (peak s1) - release_amplitude \<rparr> \<rparr>
                else s1)
      in if right (peak s2) > upper_bound
         then s2\<lparr> peak := (peak s2)\<lparr> right := right (peak s2) - release_amplitude \<rparr> \<rparr>
         else s2)"

text \<open>\<open>samples = req_frames * 2\<close> is stored in a \<open>uint16_t\<close>: the product is reduced
  modulo 65536 before the assertion compares it with \<open>in.size()\<close>. The returned
  reference is the member \<open>out\<close> of the returned state.\<close>

definition Apply :: "limiter \<Rightarrow> real list \<Rightarrow> 16 word \<Rightarrow> error + limiter" where
  "Apply s inp req_frames =
     (let samples = req_frames * 2
      in if \<not> unat samples \<le> length inp then Inl AssertionFailed
         else
           (case FindPeaks s inp samples of
              Inl e \<Rightarrow> Inl e
            | Inr s1 \<Rightarrow>
               (case SaveTailFrame s1 req_frames of
                  Inl e \<Rightarrow> Inl e
                | Inr s2 \<Rightarrow> Inr (Release s2))))"


definition Reset :: "limiter \<Rightarrow> limiter" where
  "Reset s = s\<lparr> peak := \<lparr> left = 1, right = 1 \<rparr>, limited_ms := 0, non_limited_ms := 0 \<rparr>"

subsection \<open>The release step in binary32\<close>

text \<open>
  A finite binary32 value is \<open>m * 2 ^ e\<close> with an integer \<open>m\<close> of magnitude below
  \<open>2 ^ 24\<close> and \<open>e\<close> from \<open>-149\<close> to 104. An arithmetic operation on floats returns the
  value nearest to the exact result, the one with even \<open>m\<close> when two are equally
  near. \<open>round_binary32\<close> is this rounding for results below the overflow threshold
  (infinities are not modelled; the release step only makes a finite float
  smaller).
\<close>

definition round_half_even :: "real \<Rightarrow> int" where
  "round_half_even y =
     (let f = \<lfloor>y\<rfloor>; d = y - of_int f
      in if d < 1 / 2 then f else if 1 / 2 < d then f + 1 else if even f then f else f + 1)"

text \<open>For positive \<open>x\<close>, the integer \<open>k\<close> with \<open>2 ^ k \<le> x < 2 ^ (k + 1)\<close>.\<close>

definition binary_exponent :: "real \<Rightarrow> int" where
  "binary_exponent x =
     (if 1 \<le> x then int (floorlog 2 (nat \<lfloor>x\<rfloor>)) - 1
      else - int (floorlog 2 (nat (\<lceil>1 / x\<rceil> - 1))))"

definition round_binary32 :: "real \<Rightarrow> real" where
  "round_binary32 x =
     (if x = 0 then 0
      else (let e = max (binary_exponent \<bar>x\<bar> - 23) (- 149)
            in sgn x * of_int (round_half_even (\<bar>x\<bar> / 2 powi e)) * 2 powi e))"

text \<open>\<open>constexpr float delta_db = 0.002709201f\<close> and
  \<open>constexpr float release_amplitude = upper_bound * delta_db\<close>: the literal and the
  product are floats.\<close>

definition delta_db_binary32 :: real where
  "delta_db_binary32 = round_binary32 0.002709201"

definition release_amplitude_binary32 :: real where
  "release_amplitude_binary32 = round_binary32 (upper_bound * delta_db_binary32)"

text \<open>\<open>Release\<close> with \<open>peak.left -= release_amplitude\<close> and the same for the right
  channel as the float subtractions they are, and \<open>Apply\<close> with this release step.\<close>

definition Release_binary32 :: "limiter \<Rightarrow> limiter" where
  "Release_binary32 s =
     (let s1 = s\<lparr> limited_ms := limited_ms s + 1 \<rparr>;
          s2 = (if left (peak s1) > upper_bound
                then s1\<lparr> peak := (peak s1)\<lparr> left :=
                        round_binary32 (left (peak s1) - release_amplitude_binary32) \<rparr> \<rparr>
                else s1)
      in if right (peak s2) > upper_bound
         then s2\<lparr> peak := (peak s2)\<lparr> right :=
                 round_binary32 (right (peak s2) - release_amplitude_binary32) \<rparr> \<rparr>
         else s2)"

definition Apply_binary32 :: "limiter \<Rightarrow> real list \<Rightarrow> 16 word \<Rightarrow> error + limiter" where
  "Apply_binary32 s inp req_frames =
     (let samples = req_frames * 2
      in if \<not> unat samples \<le> length inp then Inl AssertionFailed
         else
           (case FindPeaks s inp samples of
              Inl e \<Rightarrow> Inl e
            | Inr s1 \<Rightarrow>
               (case SaveTailFrame s1 req_frames of
                  Inl e \<Rightarrow> Inl e
                | Inr s2 \<Rightarrow> Inr (Release_binary32 s2))))"

subsection \<open>PrintStats\<close>






subsection \<open>Sequences of calls\<close>

text \<open>The public operations of an instance after its construction. \<open>GetPeaks\<close> and
  \<open>PrintStats\<close> are \<open>const\<close>: they leave the state as it is. A sequence of calls stops
  at the first failed one.\<close>

datatype op = OpApply "real list" "16 word" | OpReset | OpGetPeaks | OpPrintStats

fun step :: "limiter \<Rightarrow> op \<Rightarrow> error + limiter" where
  "step s (OpApply inp req_frames) = Apply s inp req_frames"
| "step s OpReset = Inr (Reset s)"
| "step s OpGetPeaks = Inr s"
| "step s OpPrintStats = Inr s"

fun run :: "limiter \<Rightarrow> op list \<Rightarrow> error + limiter" where
  "run s [] = Inr s"
| "run s (x # xs) = (case step s x of Inl e \<Rightarrow> Inl e | Inr s' \<Rightarrow> run s' xs)"

text \<open>What \<open>Apply\<close> hands back: a reference to the member \<open>out\<close>.\<close>

definition Apply_out :: "limiter \<Rightarrow> real list \<Rightarrow> 16 word \<Rightarrow> error + 16 word list" where
  "Apply_out s inp req_frames =
     (case Apply s inp req_frames of Inl e \<Rightarrow> Inl e | Inr s' \<Rightarrow> Inr (out s'))"

subsection \<open>Quantities the diagnostics are stated with\<close>



definition time_ratio :: "limiter \<Rightarrow> real" where
  "time_ratio s =
     real_of_int (sint (limited_ms s)) /
       (real_of_int (sint (limited_ms s)) + real_of_int (sint (non_limited_ms s)) + 1)"

text \<open>The number of \<open>Apply\<close> calls in a sequence since its last \<open>Reset\<close>, counted on
  from \<open>k\<close>.\<close>

fun applies_since_reset :: "nat \<Rightarrow> op list \<Rightarrow> nat" where
  "applies_since_reset k [] = k"
| "applies_since_reset k (OpApply inp req_frames # xs) = applies_since_reset (Suc k) xs"
| "applies_since_reset k (OpReset # xs) = applies_since_reset 0 xs"
| "applies_since_reset k (OpGetPeaks # xs) = applies_since_reset k xs"
| "applies_since_reset k (OpPrintStats # xs) = applies_since_reset k xs"

section \<open>Properties\<close>

subsection \<open>Evaluation and frame lemmas\<close>

lemmas eval_defs = Apply_def FindPeaks_def TriageSignal_def SaveTailFrame_def Release_def
  SoftLimiter_def cast_int16_def trunc_zero_def float_of_int16_def upper_bound_def LEFT_def
  RIGHT_def release_amplitude_def delta_db_def Apply_out_def Let_def

lemmas binary32_defs = round_binary32_def binary_exponent_def round_half_even_def
  delta_db_binary32_def release_amplitude_binary32_def Release_binary32_def Apply_binary32_def
  compute_floorlog power_int_def power_divide

lemma FindPeaks_frame:
  "FindPeaks s inp n = Inr s1 \<Longrightarrow>
   limited_ms s1 = limited_ms s \<and> non_limited_ms s1 = non_limited_ms s \<and> tail s1 = tail s \<and>
   prescale s1 = prescale s \<and> channel_name s1 = channel_name s"
  by (auto simp: FindPeaks_def split: sum.splits prod.splits)

lemma SaveTailFrame_frame:
  "SaveTailFrame s n = Inr s1 \<Longrightarrow>
   limited_ms s1 = limited_ms s \<and> non_limited_ms s1 = non_limited_ms s \<and> peak s1 = peak s \<and>
   out s1 = out s \<and> prescale s1 = prescale s \<and> channel_name s1 = channel_name s"
  by (auto simp: SaveTailFrame_def Let_def split: if_splits)

lemma Apply_Inr:
  "Apply s inp n = Inr s' \<Longrightarrow>
   \<exists>s1 s2. FindPeaks s inp (n * 2) = Inr s1 \<and> SaveTailFrame s1 n = Inr s2 \<and> s' = Release s2"
  by (auto simp: Apply_def Let_def split: if_splits sum.splits)

lemma Release_fields:
  "limited_ms (Release s) = limited_ms s + 1"
  "non_limited_ms (Release s) = non_limited_ms s"
  "out (Release s) = out s"
  "tail (Release s) = tail s"
  "prescale (Release s) = prescale s"
  by (simp_all add: Release_def Let_def)

subsection \<open>The scanning loop\<close>

text \<open>One round of the loop and its exit, as rewrite rules; the function's own
  equation is kept out of the simplifier in the proofs below.\<close>

lemma FindPeaks_loop_unfold:
  "pos < pos_end \<Longrightarrow>
   FindPeaks_loop inp pos pos_end lp ppl ppr =
     (if length inp \<le> pos + 1 then Inl OutOfBounds
      else FindPeaks_loop inp (pos + 2) pos_end
             \<lparr>left = max (left lp) \<bar>inp ! pos\<bar>, right = max (right lp) \<bar>inp ! (pos + 1)\<bar>\<rparr>
             (if \<bar>inp ! pos\<bar> > left lp then Some (int pos) else ppl)
             (if \<bar>inp ! (pos + 1)\<bar> > right lp then Some (int (pos + 1)) else ppr))"
  apply (subst FindPeaks_loop.simps)
  apply (cases lp)
  apply (simp add: Let_def max_def del: FindPeaks_loop.simps)
  done

lemma FindPeaks_loop_stop:
  "\<not> pos < pos_end \<Longrightarrow> FindPeaks_loop inp pos pos_end lp ppl ppr = Inr (lp, ppl, ppr)"
  by (subst FindPeaks_loop.simps) (simp del: FindPeaks_loop.simps)

text \<open>What the loop returns for a channel: either nothing was larger than the
  starting value, and value and position marker are the ones handed in, or the
  value is the magnitude of a scanned sample of that channel and the marker is its
  slot.\<close>

lemma FindPeaks_loop_left:
  "FindPeaks_loop inp pos pe lp pl pr = Inr (lp', pl', pr') \<Longrightarrow>
   (left lp' = left lp \<and> pl' = pl) \<or>
   (left lp < left lp' \<and>
    (\<exists>i. pos \<le> i \<and> i < pe \<and> i < length inp \<and> even (i + pos) \<and>
         left lp' = \<bar>inp ! i\<bar> \<and> pl' = Some (int i)))"
proof (induction "pe - pos" arbitrary: pos lp pl pr rule: less_induct)
  case less
  show ?case
  proof (cases "pos < pe")
    case False
    with less.prems show ?thesis by (simp add: FindPeaks_loop_stop del: FindPeaks_loop.simps)
  next
    case True
    define lp2 where "lp2 = \<lparr>left = max (left lp) \<bar>inp ! pos\<bar>, right = max (right lp) \<bar>inp ! (pos + 1)\<bar>\<rparr>"
    define pl2 where "pl2 = (if \<bar>inp ! pos\<bar> > left lp then Some (int pos) else pl)"
    define pr2 where "pr2 = (if \<bar>inp ! (pos + 1)\<bar> > right lp then Some (int (pos + 1)) else pr)"
    from True less.prems have inb: "\<not> length inp \<le> pos + 1"
      and rec: "FindPeaks_loop inp (pos + 2) pe lp2 pl2 pr2 = Inr (lp', pl', pr')"
      by (simp_all add: FindPeaks_loop_unfold lp2_def pl2_def pr2_def del: FindPeaks_loop.simps
            split: if_splits)
    have "pe - (pos + 2) < pe - pos" using True by simp
    from less.hyps[OF this rec]
    have ih: "(left lp' = left lp2 \<and> pl' = pl2) \<or>
       (left lp2 < left lp' \<and>
        (\<exists>i. pos + 2 \<le> i \<and> i < pe \<and> i < length inp \<and> even (i + (pos + 2)) \<and>
             left lp' = \<bar>inp ! i\<bar> \<and> pl' = Some (int i)))" .
    have l2: "left lp2 = max (left lp) \<bar>inp ! pos\<bar>" by (simp add: lp2_def)
    from ih show ?thesis
    proof
      assume a: "left lp' = left lp2 \<and> pl' = pl2"
      show ?thesis
      proof (cases "\<bar>inp ! pos\<bar> > left lp")
        case gt: True
        with a l2 have "left lp < left lp'" "left lp' = \<bar>inp ! pos\<bar>" "pl' = Some (int pos)"
          by (simp_all add: pl2_def max_def)
        with True inb show ?thesis by (intro disjI2 conjI exI[of _ pos]) simp_all
      next
        case False
        with a l2 show ?thesis by (simp add: pl2_def max_def)
      qed
    next
      assume b: "left lp2 < left lp' \<and>
        (\<exists>i. pos + 2 \<le> i \<and> i < pe \<and> i < length inp \<and> even (i + (pos + 2)) \<and>
             left lp' = \<bar>inp ! i\<bar> \<and> pl' = Some (int i))"
      then obtain i where i: "pos + 2 \<le> i" "i < pe" "i < length inp" "even (i + (pos + 2))"
        "left lp' = \<bar>inp ! i\<bar>" "pl' = Some (int i)" by blast
      from b l2 have "left lp < left lp'" by (simp add: max_def split: if_splits)
      moreover from i have "pos \<le> i" "even (i + pos)" by simp_all
      ultimately show ?thesis using i by blast
    qed
  qed
qed

lemma FindPeaks_loop_right:
  "FindPeaks_loop inp pos pe lp pl pr = Inr (lp', pl', pr') \<Longrightarrow>
   (right lp' = right lp \<and> pr' = pr) \<or>
   (right lp < right lp' \<and>
    (\<exists>i. pos < i \<and> i \<le> pe \<and> i < length inp \<and> odd (i + pos) \<and>
         right lp' = \<bar>inp ! i\<bar> \<and> pr' = Some (int i)))"
proof (induction "pe - pos" arbitrary: pos lp pl pr rule: less_induct)
  case less
  show ?case
  proof (cases "pos < pe")
    case False
    with less.prems show ?thesis by (simp add: FindPeaks_loop_stop del: FindPeaks_loop.simps)
  next
    case True
    define lp2 where "lp2 = \<lparr>left = max (left lp) \<bar>inp ! pos\<bar>, right = max (right lp) \<bar>inp ! (pos + 1)\<bar>\<rparr>"
    define pl2 where "pl2 = (if \<bar>inp ! pos\<bar> > left lp then Some (int pos) else pl)"
    define pr2 where "pr2 = (if \<bar>inp ! (pos + 1)\<bar> > right lp then Some (int (pos + 1)) else pr)"
    from True less.prems have inb: "\<not> length inp \<le> pos + 1"
      and rec: "FindPeaks_loop inp (pos + 2) pe lp2 pl2 pr2 = Inr (lp', pl', pr')"
      by (simp_all add: FindPeaks_loop_unfold lp2_def pl2_def pr2_def del: FindPeaks_loop.simps
            split: if_splits)
    have "pe - (pos + 2) < pe - pos" using True by simp
    from less.hyps[OF this rec]
    have ih: "(right lp' = right lp2 \<and> pr' = pr2) \<or>
       (right lp2 < right lp' \<and>
        (\<exists>i. pos + 2 < i \<and> i \<le> pe \<and> i < length inp \<and> odd (i + (pos + 2)) \<and>
             right lp' = \<bar>inp ! i\<bar> \<and> pr' = Some (int i)))" .
    have l2: "right lp2 = max (right lp) \<bar>inp ! (pos + 1)\<bar>" by (simp add: lp2_def)
    from ih show ?thesis
    proof
      assume a: "right lp' = right lp2 \<and> pr' = pr2"
      show ?thesis
      proof (cases "\<bar>inp ! (pos + 1)\<bar> > right lp")
        case gt: True
        with a l2 have "right lp < right lp'" "right lp' = \<bar>inp ! (pos + 1)\<bar>"
          "pr' = Some (int (pos + 1))"
          by (simp_all add: pr2_def max_def)
        with True inb show ?thesis by (intro disjI2 conjI exI[of _ "pos + 1"]) simp_all
      next
        case False
        with a l2 show ?thesis by (simp add: pr2_def max_def)
      qed
    next
      assume b: "right lp2 < right lp' \<and>
        (\<exists>i. pos + 2 < i \<and> i \<le> pe \<and> i < length inp \<and> odd (i + (pos + 2)) \<and>
             right lp' = \<bar>inp ! i\<bar> \<and> pr' = Some (int i))"
      then obtain i where i: "pos + 2 < i" "i \<le> pe" "i < length inp" "odd (i + (pos + 2))"
        "right lp' = \<bar>inp ! i\<bar>" "pr' = Some (int i)" by blast
      from b l2 have "right lp < right lp'" by (simp add: max_def split: if_splits)
      moreover from i have "pos < i" "odd (i + pos)" by simp_all
      ultimately show ?thesis using i by blast
    qed
  qed
qed

text \<open>The loop reads slots below \<open>pos_end\<close> only.\<close>

lemma FindPeaks_loop_prefix:
  "\<forall>i < pe. inp' ! i = inp ! i \<Longrightarrow> length inp' = length inp \<Longrightarrow> even pos \<Longrightarrow> even pe \<Longrightarrow>
   FindPeaks_loop inp' pos pe lp pl pr = FindPeaks_loop inp pos pe lp pl pr"
proof (induction "pe - pos" arbitrary: pos lp pl pr rule: less_induct)
  case less
  show ?case
  proof (cases "pos < pe")
    case False
    then show ?thesis by (simp add: FindPeaks_loop_stop del: FindPeaks_loop.simps)
  next
    case True
    with less.prems(3,4) have "pos + 1 < pe" by presburger
    with True less.prems(1) have eq: "inp' ! pos = inp ! pos" "inp' ! (pos + 1) = inp ! (pos + 1)"
      by simp_all
    have d: "pe - (pos + 2) < pe - pos" using True by simp
    have e: "even (pos + 2)" using less.prems(3) by simp
    show ?thesis
      using less.hyps[OF d less.prems(1,2) e less.prems(4)] True eq less.prems(2)
      by (simp add: FindPeaks_loop_unfold del: FindPeaks_loop.simps)
  qed
qed

subsection \<open>Which slots a scaling pass writes\<close>

text \<open>Two runs of \<open>ScaleSide\<close> on the same input and bounds, started on two output
  buffers of the same length: the second succeeds when the first does, and
  afterwards the buffers hold the same value at every slot where they agreed before
  and at every slot the pass visits (\<open>out_pos\<close>, \<open>out_pos + 2\<close>, ... while \<open>in_pos\<close> has
  not passed \<open>in_pos_last\<close>).\<close>

lemma ScaleSide_agree:
  "ScaleSide inp i l o1 p a m = Inr r1 \<Longrightarrow> length o2 = length o1 \<Longrightarrow>
   \<exists>r2. ScaleSide inp i l o2 p a m = Inr r2 \<and> length r1 = length o1 \<and> length r2 = length o1 \<and>
        (\<forall>j. (o1 ! j = o2 ! j \<or> (p \<le> int j \<and> even (int j - p) \<and> i + (int j - p) \<le> l))
              \<longrightarrow> r1 ! j = r2 ! j)"
proof (induction inp i l o1 p a m arbitrary: o2 rule: ScaleSide.induct)
  case (1 inp i l o1 p a m)
  show ?case
  proof (cases "i \<le> l")
    case False
    with "1.prems" show ?thesis by auto
  next
    case True
    from True "1.prems"(1) have inb: "\<not> (i < 0 \<or> int (length inp) \<le> i \<or> p < 0 \<or> int (length o1) \<le> p)"
      by (auto split: if_splits)
    from True inb "1.prems"(1) obtain v where
      v: "cast_int16 (a + (inp ! nat i) * m) = Inr v"
      and rec: "ScaleSide inp (i + 2) l (o1[nat p := v]) (p + 2) a m = Inr r1"
      by (auto split: sum.splits)
    have len: "length (o2[nat p := v]) = length (o1[nat p := v])"
      using "1.prems"(2) by simp
    from "1.IH"[OF True inb v rec len] obtain r2 where
      r2: "ScaleSide inp (i + 2) l (o2[nat p := v]) (p + 2) a m = Inr r2"
      and l1: "length r1 = length o1" and l2: "length r2 = length o1"
      and ag: "\<forall>j. ((o1[nat p := v]) ! j = (o2[nat p := v]) ! j \<or>
                 (p + 2 \<le> int j \<and> even (int j - (p + 2)) \<and> i + 2 + (int j - (p + 2)) \<le> l))
              \<longrightarrow> r1 ! j = r2 ! j"
      by auto
    have run2: "ScaleSide inp i l o2 p a m = Inr r2"
      using True inb v r2 "1.prems"(2) by simp
    have "r1 ! j = r2 ! j"
      if h: "o1 ! j = o2 ! j \<or> (p \<le> int j \<and> even (int j - p) \<and> i + (int j - p) \<le> l)" for j
    proof (cases "j = nat p")
      case True
      moreover have "nat p < length o1" using inb by linarith
      ultimately have "(o1[nat p := v]) ! j = (o2[nat p := v]) ! j"
        using "1.prems"(2) by simp
      with ag show ?thesis by blast
    next
      case False
      from h show ?thesis
      proof
        assume "o1 ! j = o2 ! j"
        with False have "(o1[nat p := v]) ! j = (o2[nat p := v]) ! j" by simp
        with ag show ?thesis by blast
      next
        assume w: "p \<le> int j \<and> even (int j - p) \<and> i + (int j - p) \<le> l"
        from False inb have ne: "int j \<noteq> p" by linarith
        from w have "2 dvd (int j - p)" by blast
        then obtain k where k: "int j - p = 2 * k" unfolding dvd_def by blast
        with w ne have k1: "1 \<le> k" by linarith
        from k have "int j - (p + 2) = 2 * (k - 1)" by simp
        then have "even (int j - (p + 2))" by (metis dvd_triv_left)
        with k k1 w have "p + 2 \<le> int j \<and> even (int j - (p + 2)) \<and> i + 2 + (int j - (p + 2)) \<le> l"
          by linarith
        with ag show ?thesis by blast
      qed
    qed
    with run2 l1 l2 show ?thesis by blast
  qed
qed

text \<open>The branches of \<open>TriageSignal\<close>, one equation each.\<close>

lemma TriageSignal_new_peak:
  "l0 * pre > ex \<Longrightarrow> l0 * pre > upper_bound \<Longrightarrow>
   TriageSignal inp outp side l0 lastp pre ex add sc =
     (case lastp of
        None \<Rightarrow> Inl NullIterator
      | Some lp \<Rightarrow>
         (case ScaleSide inp (int side) lp outp (int side) add
                 ((upper_bound - add) / (l0 * pre - add)) of
            Inl e \<Rightarrow> Inl e
          | Inr out1 \<Rightarrow>
             (case ScaleSide inp (lp + int side + 2) (int (length inp) - (int side + 2))
                     out1 (lp + int side + 2) 0 (upper_bound / (l0 * pre)) of
                Inl e \<Rightarrow> Inl e
              | Inr out2 \<Rightarrow> Inr (out2, l0 * pre, upper_bound / (l0 * pre)))))"
  by (simp add: TriageSignal_def Let_def del: ScaleSide.simps
        cong: option.case_cong sum.case_cong)

lemma TriageSignal_flat:
  "\<not> (l0 * pre > ex \<and> l0 * pre > upper_bound) \<Longrightarrow>
   TriageSignal inp outp side l0 lastp pre ex add sc =
     (case ScaleSide inp (int side) (int (length inp) - (int side + 2)) outp (int side) 0
             (if ex > upper_bound then upper_bound / ex else 1) of
        Inl e \<Rightarrow> Inl e
      | Inr out1 \<Rightarrow> Inr (out1, ex, if ex > upper_bound then upper_bound / ex else sc))"
  by (cases "l0 * pre > ex"; cases "l0 * pre > upper_bound")
     (simp_all add: TriageSignal_def Let_def del: ScaleSide.simps cong: sum.case_cong)

lemma TriageSignal_new_peak_Inr:
  assumes "TriageSignal inp o1 side l0 lastp pre ex add sc = Inr (r1, ex', sc')"
    and "l0 * pre > ex" "l0 * pre > upper_bound"
  shows "\<exists>lp m1. lastp = Some lp \<and>
           ScaleSide inp (int side) lp o1 (int side) add
               ((upper_bound - add) / (l0 * pre - add)) = Inr m1 \<and>
           ScaleSide inp (lp + int side + 2) (int (length inp) - (int side + 2))
               m1 (lp + int side + 2) 0 (upper_bound / (l0 * pre)) = Inr r1 \<and>
           ex' = l0 * pre \<and> sc' = upper_bound / (l0 * pre)"
proof -
  from assms obtain lp where lp: "lastp = Some lp"
    by (cases lastp) (simp_all add: TriageSignal_new_peak del: ScaleSide.simps)
  from assms lp obtain m1 where m1: "ScaleSide inp (int side) lp o1 (int side) add
               ((upper_bound - add) / (l0 * pre - add)) = Inr m1"
    by (cases "ScaleSide inp (int side) lp o1 (int side) add
               ((upper_bound - add) / (l0 * pre - add))")
       (simp_all add: TriageSignal_new_peak del: ScaleSide.simps)
  from assms lp m1 show ?thesis
    by (cases "ScaleSide inp (lp + int side + 2) (int (length inp) - (int side + 2))
               m1 (lp + int side + 2) 0 (upper_bound / (l0 * pre))")
       (auto simp: TriageSignal_new_peak simp del: ScaleSide.simps)
qed

lemma TriageSignal_flat_Inr:
  assumes "TriageSignal inp o1 side l0 lastp pre ex add sc = Inr (r1, ex', sc')"
    and "\<not> (l0 * pre > ex \<and> l0 * pre > upper_bound)"
  shows "ScaleSide inp (int side) (int (length inp) - (int side + 2)) o1 (int side) 0
           (if ex > upper_bound then upper_bound / ex else 1) = Inr r1 \<and>
         ex' = ex \<and> sc' = (if ex > upper_bound then upper_bound / ex else sc)"
  using assms
  by (cases "ScaleSide inp (int side) (int (length inp) - (int side + 2)) o1 (int side) 0
           (if ex > upper_bound then upper_bound / ex else 1)")
     (auto simp: TriageSignal_flat simp del: ScaleSide.simps)


text \<open>The same comparison for \<open>TriageSignal\<close>. Without a new peak, the single pass
  visits the channel's slots \<open>side\<close>, \<open>side + 2\<close>, ... up to \<open>size - (side + 2)\<close>. With a
  new peak on the left channel, whose marker is an even slot, the two passes
  together visit every even slot up to \<open>size - 2\<close>. For a new peak on the right
  channel only the preservation of agreeing slots is stated.\<close>

lemma TriageSignal_agree:
  assumes T1: "TriageSignal inp o1 side l0 lastp pre ex add sc = Inr (r1, ex', sc')"
    and len: "length o2 = length o1"
    and pk: "l0 * pre > ex \<and> l0 * pre > upper_bound \<Longrightarrow> side = 0 \<Longrightarrow>
             \<exists>lp. lastp = Some lp \<and> 0 \<le> lp \<and> even lp"
  shows "\<exists>r2. TriageSignal inp o2 side l0 lastp pre ex add sc = Inr (r2, ex', sc') \<and>
           length r1 = length o1 \<and> length r2 = length o1 \<and>
           (\<forall>j. (o1 ! j = o2 ! j \<or>
                  ((side = 0 \<or> \<not> (l0 * pre > ex \<and> l0 * pre > upper_bound)) \<and>
                   int side \<le> int j \<and> even (int j - int side) \<and>
                   int j + int side + 2 \<le> int (length inp)))
                 \<longrightarrow> r1 ! j = r2 ! j)"
proof (cases "l0 * pre > ex \<and> l0 * pre > upper_bound")
  case False
  from TriageSignal_flat_Inr[OF T1 False] have
    s1: "ScaleSide inp (int side) (int (length inp) - (int side + 2)) o1 (int side) 0
           (if ex > upper_bound then upper_bound / ex else 1) = Inr r1"
    and e: "ex' = ex" "sc' = (if ex > upper_bound then upper_bound / ex else sc)"
    by simp_all
  from ScaleSide_agree[OF s1 len] obtain r2 where
    s2: "ScaleSide inp (int side) (int (length inp) - (int side + 2)) o2 (int side) 0
           (if ex > upper_bound then upper_bound / ex else 1) = Inr r2"
    and l: "length r1 = length o1" "length r2 = length o1"
    and ag: "\<forall>j. (o1 ! j = o2 ! j \<or>
                (int side \<le> int j \<and> even (int j - int side) \<and>
                 int side + (int j - int side) \<le> int (length inp) - (int side + 2)))
              \<longrightarrow> r1 ! j = r2 ! j"
    by blast
  have t2: "TriageSignal inp o2 side l0 lastp pre ex add sc = Inr (r2, ex', sc')"
    using s2 e by (simp add: TriageSignal_flat[OF False] del: ScaleSide.simps)
  have "r1 ! j = r2 ! j"
    if "o1 ! j = o2 ! j \<or>
         ((side = 0 \<or> \<not> (l0 * pre > ex \<and> l0 * pre > upper_bound)) \<and>
          int side \<le> int j \<and> even (int j - int side) \<and>
          int j + int side + 2 \<le> int (length inp))" for j
  proof -
    from that have "o1 ! j = o2 ! j \<or>
                (int side \<le> int j \<and> even (int j - int side) \<and>
                 int side + (int j - int side) \<le> int (length inp) - (int side + 2))"
      by linarith
    with ag show ?thesis by blast
  qed
  with t2 l show ?thesis by blast
next
  case True
  then have np: "l0 * pre > ex" "l0 * pre > upper_bound" by simp_all
  from TriageSignal_new_peak_Inr[OF T1 np] obtain lp m1 where
    lp: "lastp = Some lp"
    and a1: "ScaleSide inp (int side) lp o1 (int side) add
               ((upper_bound - add) / (l0 * pre - add)) = Inr m1"
    and b1: "ScaleSide inp (lp + int side + 2) (int (length inp) - (int side + 2))
               m1 (lp + int side + 2) 0 (upper_bound / (l0 * pre)) = Inr r1"
    and e: "ex' = l0 * pre" "sc' = upper_bound / (l0 * pre)"
    by blast
  from ScaleSide_agree[OF a1 len] obtain m2 where
    a2: "ScaleSide inp (int side) lp o2 (int side) add
               ((upper_bound - add) / (l0 * pre - add)) = Inr m2"
    and la: "length m1 = length o1" "length m2 = length o1"
    and aga: "\<forall>j. (o1 ! j = o2 ! j \<or>
                (int side \<le> int j \<and> even (int j - int side) \<and>
                 int side + (int j - int side) \<le> lp))
              \<longrightarrow> m1 ! j = m2 ! j"
    by blast
  from la have lenm: "length m2 = length m1" by simp
  from ScaleSide_agree[OF b1 lenm] obtain r2 where
    b2: "ScaleSide inp (lp + int side + 2) (int (length inp) - (int side + 2))
               m2 (lp + int side + 2) 0 (upper_bound / (l0 * pre)) = Inr r2"
    and lb: "length r1 = length m1" "length r2 = length m1"
    and agb: "\<forall>j. (m1 ! j = m2 ! j \<or>
                (lp + int side + 2 \<le> int j \<and> even (int j - (lp + int side + 2)) \<and>
                 lp + int side + 2 + (int j - (lp + int side + 2))
                   \<le> int (length inp) - (int side + 2)))
              \<longrightarrow> r1 ! j = r2 ! j"
    by blast
  have t2: "TriageSignal inp o2 side l0 lastp pre ex add sc = Inr (r2, ex', sc')"
    using lp a2 b2 e by (simp add: TriageSignal_new_peak[OF np] del: ScaleSide.simps)
  have "r1 ! j = r2 ! j"
    if h: "o1 ! j = o2 ! j \<or>
         ((side = 0 \<or> \<not> (l0 * pre > ex \<and> l0 * pre > upper_bound)) \<and>
          int side \<le> int j \<and> even (int j - int side) \<and>
          int j + int side + 2 \<le> int (length inp))" for j
  proof -
    from h show ?thesis
    proof
      assume "o1 ! j = o2 ! j"
      with aga have "m1 ! j = m2 ! j" by blast
      with agb show ?thesis by blast
    next
      assume w: "(side = 0 \<or> \<not> (l0 * pre > ex \<and> l0 * pre > upper_bound)) \<and>
          int side \<le> int j \<and> even (int j - int side) \<and>
          int j + int side + 2 \<le> int (length inp)"
      with True have s0: "side = 0" by blast
      with pk[OF True] lp have lpe: "0 \<le> lp" "even lp" by auto
      from w s0 have ej: "even (int j)" "int j + 2 \<le> int (length inp)" by simp_all
      show ?thesis
      proof (cases "int j \<le> lp")
        case True
        with ej s0 have "int side \<le> int j \<and> even (int j - int side) \<and>
                 int side + (int j - int side) \<le> lp" by simp
        with aga have "m1 ! j = m2 ! j" by blast
        with agb show ?thesis by blast
      next
        case False
        from ej lpe have "even (int j - lp)" by simp
        then have "2 dvd (int j - lp)" .
        then obtain k where k: "int j - lp = 2 * k" unfolding dvd_def by blast
        with False have k1: "1 \<le> k" by linarith
        from k have "int j - (lp + 2) = 2 * (k - 1)" by simp
        then have "even (int j - (lp + 2))" by (metis dvd_triv_left)
        moreover from k k1 have "lp + 2 \<le> int j" by linarith
        ultimately have "lp + int side + 2 \<le> int j \<and> even (int j - (lp + int side + 2)) \<and>
                 lp + int side + 2 + (int j - (lp + int side + 2))
                   \<le> int (length inp) - (int side + 2)"
          using s0 ej by simp
        with agb show ?thesis by blast
      qed
    qed
  qed
  with t2 la lb show ?thesis by auto
qed

lemma FindPeaks_Inr:
  assumes "FindPeaks s inp samples = Inr s1"
  shows "\<exists>lpk ppl ppr o1 pl sl o2 pr sr.
     FindPeaks_loop inp 0 (unat samples) \<lparr>left = 0, right = 0\<rparr>
         (peak_pos_left s) (peak_pos_right s) = Inr (lpk, ppl, ppr) \<and>
     TriageSignal inp (out s) 0 (left lpk) ppl (left (prescale s)) (left (peak s))
         (left (tail s)) (left (limit_scale s)) = Inr (o1, pl, sl) \<and>
     TriageSignal inp o1 1 (right lpk) ppr (right (prescale s)) (right (peak s))
         (right (tail s)) (right (limit_scale s)) = Inr (o2, pr, sr) \<and>
     s1 = s\<lparr> out := o2, peak := \<lparr> left = pl, right = pr \<rparr>,
             limit_scale := \<lparr> left = sl, right = sr \<rparr>,
             peak_pos_left := ppl, peak_pos_right := ppr \<rparr>"
  using assms
  by (auto simp: FindPeaks_def LEFT_def RIGHT_def
        simp del: ScaleSide.simps FindPeaks_loop.simps split: sum.splits prod.splits)

lemma FindPeaks_agree:
  assumes F1: "FindPeaks s inp samples = Inr s1"
    and len: "length o2 = length (out s)"
    and evs: "even (unat samples)"
  shows "\<exists>s2. FindPeaks (s\<lparr>out := o2\<rparr>) inp samples = Inr s2 \<and>
           length (out s1) = length (out s) \<and> length (out s2) = length (out s) \<and>
           (\<forall>j. (even j \<and> j + 2 \<le> length inp) \<or>
                 (odd j \<and> j + 3 \<le> length inp \<and>
                  (\<forall>i < unat samples. odd i \<longrightarrow> \<bar>inp ! i\<bar> * right (prescale s)
                        \<le> max (right (peak s)) upper_bound))
                \<longrightarrow> out s1 ! j = out s2 ! j)"
proof -
  from FindPeaks_Inr[OF F1] obtain lpk ppl ppr o1 pl sl o3 pr sr where
    loop: "FindPeaks_loop inp 0 (unat samples) \<lparr>left = 0, right = 0\<rparr>
         (peak_pos_left s) (peak_pos_right s) = Inr (lpk, ppl, ppr)"
    and tl: "TriageSignal inp (out s) 0 (left lpk) ppl (left (prescale s)) (left (peak s))
         (left (tail s)) (left (limit_scale s)) = Inr (o1, pl, sl)"
    and tr: "TriageSignal inp o1 1 (right lpk) ppr (right (prescale s)) (right (peak s))
         (right (tail s)) (right (limit_scale s)) = Inr (o3, pr, sr)"
    and s1: "s1 = s\<lparr> out := o3, peak := \<lparr> left = pl, right = pr \<rparr>,
             limit_scale := \<lparr> left = sl, right = sr \<rparr>,
             peak_pos_left := ppl, peak_pos_right := ppr \<rparr>"
    by blast
  have pkl: "\<exists>lp. ppl = Some lp \<and> 0 \<le> lp \<and> even lp"
    if "left lpk * left (prescale s) > left (peak s) \<and>
        left lpk * left (prescale s) > upper_bound"
  proof -
    from that have "left lpk \<noteq> 0" by (auto simp: upper_bound_def)
    with FindPeaks_loop_left[OF loop] obtain i where "even (i + 0)" "ppl = Some (int i)"
      by auto
    then show ?thesis by simp
  qed
  from TriageSignal_agree[OF tl len pkl] obtain q1 where
    tl2: "TriageSignal inp o2 0 (left lpk) ppl (left (prescale s)) (left (peak s))
         (left (tail s)) (left (limit_scale s)) = Inr (q1, pl, sl)"
    and l1: "length o1 = length (out s)" "length q1 = length (out s)"
    and ag1: "\<forall>j. (out s ! j = o2 ! j \<or>
                  (((0::nat) = 0 \<or> \<not> (left lpk * left (prescale s) > left (peak s) \<and>
                       left lpk * left (prescale s) > upper_bound)) \<and>
                   int (0::nat) \<le> int j \<and> even (int j - int (0::nat)) \<and>
                   int j + int (0::nat) + 2 \<le> int (length inp)))
                 \<longrightarrow> o1 ! j = q1 ! j"
    by blast
  from l1 have len1: "length q1 = length o1" by simp
  have pkr: "\<exists>lp. ppr = Some lp \<and> 0 \<le> lp \<and> even lp"
    if "right lpk * right (prescale s) > right (peak s) \<and>
        right lpk * right (prescale s) > upper_bound" "(1::nat) = 0"
    using that by simp
  from TriageSignal_agree[OF tr len1 pkr] obtain q3 where
    tr2: "TriageSignal inp q1 1 (right lpk) ppr (right (prescale s)) (right (peak s))
         (right (tail s)) (right (limit_scale s)) = Inr (q3, pr, sr)"
    and l3: "length o3 = length o1" "length q3 = length o1"
    and ag3: "\<forall>j. (o1 ! j = q1 ! j \<or>
                  (((1::nat) = 0 \<or> \<not> (right lpk * right (prescale s) > right (peak s) \<and>
                       right lpk * right (prescale s) > upper_bound)) \<and>
                   int (1::nat) \<le> int j \<and> even (int j - int (1::nat)) \<and>
                   int j + int (1::nat) + 2 \<le> int (length inp)))
                 \<longrightarrow> o3 ! j = q3 ! j"
    by blast
  define s2 where "s2 = s\<lparr> out := q3, peak := \<lparr> left = pl, right = pr \<rparr>,
             limit_scale := \<lparr> left = sl, right = sr \<rparr>,
             peak_pos_left := ppl, peak_pos_right := ppr \<rparr>"
  have F2: "FindPeaks (s\<lparr>out := o2\<rparr>) inp samples = Inr s2"
    using loop tl2 tr2
    by (simp add: FindPeaks_def LEFT_def RIGHT_def s2_def
          del: ScaleSide.simps FindPeaks_loop.simps)
  have "out s1 ! j = out s2 ! j"
    if h: "(even j \<and> j + 2 \<le> length inp) \<or>
           (odd j \<and> j + 3 \<le> length inp \<and>
            (\<forall>i < unat samples. odd i \<longrightarrow> \<bar>inp ! i\<bar> * right (prescale s)
                  \<le> max (right (peak s)) upper_bound))" for j
  proof -
    from h have "o3 ! j = q3 ! j"
    proof
      assume "even j \<and> j + 2 \<le> length inp"
      then have "o1 ! j = q1 ! j" using ag1 by simp
      with ag3 show ?thesis by blast
    next
      assume w: "odd j \<and> j + 3 \<le> length inp \<and>
            (\<forall>i < unat samples. odd i \<longrightarrow> \<bar>inp ! i\<bar> * right (prescale s)
                  \<le> max (right (peak s)) upper_bound)"
      have nonew: "\<not> (right lpk * right (prescale s) > right (peak s) \<and>
                       right lpk * right (prescale s) > upper_bound)"
      proof (cases "right lpk = 0")
        case True
        then show ?thesis by (simp add: upper_bound_def)
      next
        case False
        with FindPeaks_loop_right[OF loop] obtain i where
          i: "i \<le> unat samples" "odd (i + 0)" "right lpk = \<bar>inp ! i\<bar>" by auto
        from i evs have "i \<noteq> unat samples" by auto
        with i have "i < unat samples" by simp
        with w i have "right lpk * right (prescale s) \<le> max (right (peak s)) upper_bound"
          by simp
        then show ?thesis by (auto simp: max_def split: if_splits)
      qed
      from w have "1 \<le> j" by (cases j) auto
      moreover from w have "even (int j - 1)" by simp
      ultimately have "int (1::nat) \<le> int j \<and> even (int j - int (1::nat)) \<and>
                   int j + int (1::nat) + 2 \<le> int (length inp)"
        using w by simp
      with nonew ag3 show ?thesis by blast
    qed
    then show ?thesis by (simp add: s1 s2_def)
  qed
  moreover have "length (out s1) = length (out s)" "length (out s2) = length (out s)"
    using l1 l3 by (simp_all add: s1 s2_def)
  ultimately show ?thesis using F2 by blast
qed

lemma SaveTailFrame_same_length:
  "SaveTailFrame s n = Inr s2 \<Longrightarrow> length (out s') = length (out s) \<Longrightarrow>
   \<exists>s2'. SaveTailFrame s' n = Inr s2' \<and> out s2' = out s'"
  by (auto simp: SaveTailFrame_def Let_def split: if_splits)

lemma unat_twice:
  "unat (n :: 16 word) < 32768 \<Longrightarrow> unat (n * 2) = 2 * unat n"
  by (simp add: unat_word_ariths)

subsection \<open>Bound safety\<close>

text \<open>
  C1. Claimed: whatever the input block and the frame count within capacity, every
  sample of the block \<open>Apply\<close> returns lies between INT16\_MIN and INT16\_MAX.

  The code does not keep this. With two frames per block and prescale 1, a first
  block \<open>[1000, 0, 1000, 0]\<close> passes through and leaves the left tail at 1000. The
  second block \<open>[0, 0, 40000, 0]\<close> has a new left peak of 40000; the ramp
  \<open>add + x * mult\<close> with \<open>add = 1000\<close> and \<open>mult = (32767 - 1000) / (40000 - 1000)\<close> takes
  the peak sample to about 33581.5, which no \<open>int16_t\<close> holds: the conversion is
  undefined and no in-range sample is produced.
\<close>

theorem Apply_ramp_leaves_range:
  "run (SoftLimiter [0, 0, 0, 0] ''GUS'' \<lparr>left = 1, right = 1\<rparr>)
       [OpApply [1000, 0, 1000, 0] 2, OpApply [0, 0, 40000, 0] 2]
   = Inl CastOutOfRange"
  by (simp add: eval_defs)

subsection \<open>The new-peak branch\<close>

text \<open>
  C2. Claimed: in the new-peak branch the ramp \<open>add + mult * x\<close> is applied to the
  channel's samples up to and including the peak, and every later sample of that
  channel is scaled by \<open>bound / local\<close>.

  For the right channel the second pass starts at \<open>last_pos + side + 2\<close>, three slots
  after the (odd) peak position, which is a left slot. With four frames per block, a
  right peak of 40000 in the first frame and right samples of 20000 after it, the
  right slots 3, 5 and 7 keep the old content 7 of the buffer instead of 16383, and
  the left slot 4, which the left pass had set to 1000, is overwritten with
  \<open>1000 * 32767 / 40000\<close>, truncated to 819.
\<close>

theorem Apply_right_peak_misses_right_slots:
  "Apply_out (SoftLimiter [7, 7, 7, 7, 7, 7, 7, 7] ''GUS'' \<lparr>left = 1, right = 1\<rparr>)
       [1000, 40000, 1000, 20000, 1000, 20000, 1000, 20000] 4
   = Inr [1000, 32767, 1000, 7, 819, 7, 1000, 7]"
  by (simp add: eval_defs)

subsection \<open>The tail frame\<close>

text \<open>\<open>SaveTailFrame\<close> copies the two slots of the last requested frame.\<close>

lemma SaveTailFrame_reads_out:
  "SaveTailFrame s n = Inr s' \<Longrightarrow>
   tail s' = (if n = 0 then \<lparr>left = 0, right = 0\<rparr>
              else \<lparr>left = float_of_int16 (out s ! ((unat n - 1) * 2)),
                     right = float_of_int16 (out s ! ((unat n - 1) * 2 + 1))\<rparr>)"
  by (auto simp: SaveTailFrame_def Let_def split: if_splits)

text \<open>
  C3. Claimed: after \<open>Apply\<close> with \<open>n > 0\<close> frames the tail of each channel is the
  value this call wrote at the channel's last position, \<open>2(n-1)\<close> and \<open>2(n-1)+1\<close>.

  \<open>SaveTailFrame\<close> reads \<open>out\<close> at these two positions, but for a full block the right
  one is the last slot of the array, and the right pass of the two branches without
  a new peak ends at \<open>in.end() - 3\<close>. With two frames per block, a buffer that held 9
  everywhere and the block \<open>[5, 7, 6, 8]\<close>, the right tail becomes the old 9, not the
  8 of this call's last right sample.
\<close>

theorem Apply_right_tail_is_stale:
  "Apply (SoftLimiter [9, 9, 9, 9] ''GUS'' \<lparr>left = 1, right = 1\<rparr>) [5, 7, 6, 8] 2 =
   Inr \<lparr>out = [5, 7, 6, 9], channel_name = ''GUS'',
        prescale = \<lparr>left = 1, right = 1\<rparr>,
        limit_scale = \<lparr>left = 1, right = 1\<rparr>, peak = \<lparr>left = 1, right = 1\<rparr>,
        tail = \<lparr>left = 6, right = 9\<rparr>, peak_pos_left = Some 2,
        peak_pos_right = Some 3, limited_ms = 1, non_limited_ms = 0,
        remaining_incr_left = 0, remaining_incr_right = 0\<rparr>"
  by (simp add: eval_defs)

subsection \<open>Pass-through\<close>

text \<open>
  C4. Claimed: while no prescaled input sample exceeds the bound, every position of
  every returned block holds the direct conversion of the input sample there.

  The last right slot of a full block is not written (the right pass ends at
  \<open>in.end() - 3\<close>). With three frames per block, a zeroed buffer and the block
  \<open>[10, 20, 30, 40, 50, 60]\<close>, position 5 of the returned block is 0, not 60.
\<close>

theorem Apply_pass_through_misses_last_slot:
  "Apply_out (SoftLimiter [0, 0, 0, 0, 0, 0] ''GUS'' \<lparr>left = 1, right = 1\<rparr>)
       [10, 20, 30, 40, 50, 60] 3
   = Inr [10, 20, 30, 40, 50, 0]"
  by (simp add: eval_defs)

subsection \<open>Release\<close>

text \<open>The float constant of the release step, and the pieces of \<open>Apply_binary32\<close>.\<close>

lemma release_amplitude_binary32_value:
  "release_amplitude_binary32 = 11635575 / 131072"
  by (simp add: binary32_defs upper_bound_def Let_def)

lemma Apply_binary32_Inr:
  "Apply_binary32 s inp n = Inr s' \<Longrightarrow>
   \<exists>s1 s2. FindPeaks s inp (n * 2) = Inr s1 \<and> SaveTailFrame s1 n = Inr s2 \<and>
           s' = Release_binary32 s2"
  by (auto simp: Apply_binary32_def Let_def split: if_splits sum.splits)

lemma Release_binary32_fields:
  "limited_ms (Release_binary32 s) = limited_ms s + 1"
  "out (Release_binary32 s) = out s"
  "tail (Release_binary32 s) = tail s"
  "left (peak (Release_binary32 s)) =
     (if left (peak s) > upper_bound
      then round_binary32 (left (peak s) - release_amplitude_binary32) else left (peak s))"
  "right (peak (Release_binary32 s)) =
     (if right (peak s) > upper_bound
      then round_binary32 (right (peak s) - release_amplitude_binary32) else right (peak s))"
  by (simp_all add: Release_binary32_def Let_def)

lemma tail_capture_at_new_left_peak:
  "FindPeaks (SoftLimiter [0, 0, 0, 0] ''GUS'' \<lparr>left = 1, right = 1\<rparr>) [0, 0, 40000, 0] (2 * 2) =
   Inr (\<lparr>out = [0, 0, 32767, 0], channel_name = ''GUS'',
        prescale = \<lparr>left = 1, right = 1\<rparr>,
        limit_scale = \<lparr>left = 32767 / 40000, right = 1\<rparr>,
        peak = \<lparr>left = 40000, right = 1\<rparr>,
        tail = \<lparr>left = 32767, right = 0\<rparr>, peak_pos_left = Some 2,
        peak_pos_right = None, limited_ms = 0, non_limited_ms = 0,
        remaining_incr_left = 0, remaining_incr_right = 0\<rparr>\<lparr>tail := \<lparr>left = 0, right = 0\<rparr>\<rparr>) \<and>
   SaveTailFrame (\<lparr>out = [0, 0, 32767, 0], channel_name = ''GUS'',
        prescale = \<lparr>left = 1, right = 1\<rparr>,
        limit_scale = \<lparr>left = 32767 / 40000, right = 1\<rparr>,
        peak = \<lparr>left = 40000, right = 1\<rparr>,
        tail = \<lparr>left = 32767, right = 0\<rparr>, peak_pos_left = Some 2,
        peak_pos_right = None, limited_ms = 0, non_limited_ms = 0,
        remaining_incr_left = 0, remaining_incr_right = 0\<rparr>\<lparr>tail := \<lparr>left = 0, right = 0\<rparr>\<rparr>) 2 =
   Inr \<lparr>out = [0, 0, 32767, 0], channel_name = ''GUS'',
        prescale = \<lparr>left = 1, right = 1\<rparr>,
        limit_scale = \<lparr>left = 32767 / 40000, right = 1\<rparr>,
        peak = \<lparr>left = 40000, right = 1\<rparr>,
        tail = \<lparr>left = 32767, right = 0\<rparr>, peak_pos_left = Some 2,
        peak_pos_right = None, limited_ms = 0, non_limited_ms = 0,
        remaining_incr_left = 0, remaining_incr_right = 0\<rparr>"
  by (simp add: eval_defs)

lemma Apply_binary32_new_left_peak:
  "Apply_binary32 (SoftLimiter [0, 0, 0, 0] ''GUS'' \<lparr>left = 1, right = 1\<rparr>) [0, 0, 40000, 0] 2 =
   Inr \<lparr>out = [0, 0, 32767, 0], channel_name = ''GUS'',
        prescale = \<lparr>left = 1, right = 1\<rparr>,
        limit_scale = \<lparr>left = 32767 / 40000, right = 1\<rparr>,
        peak = \<lparr>left = 5108637 / 128, right = 1\<rparr>,
        tail = \<lparr>left = 32767, right = 0\<rparr>, peak_pos_left = Some 2,
        peak_pos_right = None, limited_ms = 1, non_limited_ms = 0,
        remaining_incr_left = 0, remaining_incr_right = 0\<rparr>"
  by (simp add: eval_defs binary32_defs)

text \<open>The rounding is what its comments say: \<open>round_half_even\<close> is within one half of
  its argument, and \<open>binary_exponent\<close> brackets a positive number between two
  neighbouring powers of two.\<close>

lemma round_half_even_nearest: "\<bar>real_of_int (round_half_even y) - y\<bar> \<le> 1 / 2"
proof -
  have "real_of_int \<lfloor>y\<rfloor> \<le> y" "y < real_of_int \<lfloor>y\<rfloor> + 1" by linarith+
  then show ?thesis
    by (auto simp: round_half_even_def Let_def)
qed

lemma binary_exponent_bounds:
  assumes "0 < x"
  shows "2 powi (binary_exponent x) \<le> x \<and> x < 2 powi (binary_exponent x + 1)"
proof (cases "1 \<le> x")
  case True
  define n where "n = nat \<lfloor>x\<rfloor>"
  from True have n1: "0 < n" by (simp add: n_def)
  from floorlog_bounds[OF n1, of 2] have b: "2 ^ (floorlog 2 n - 1) \<le> n" "n < 2 ^ floorlog 2 n"
    by simp_all
  from n1 b(2) have f1: "1 \<le> floorlog 2 n"
    by (cases "floorlog 2 n") simp_all
  have k: "binary_exponent x = int (floorlog 2 n) - 1"
    using True by (simp add: binary_exponent_def n_def)
  have k': "binary_exponent x = int (floorlog 2 n - 1)" using k f1 by simp
  from b(1) have "(2::real) ^ (floorlog 2 n - 1) \<le> real n"
    by (metis of_nat_le_iff of_nat_numeral of_nat_power)
  moreover have "real n \<le> x" using True by (simp add: n_def)
  ultimately have lo: "(2::real) ^ (floorlog 2 n - 1) \<le> x" by (rule order_trans)
  from b(2) have "n + 1 \<le> 2 ^ floorlog 2 n" by simp
  then have "real (n + 1) \<le> (2::real) ^ floorlog 2 n"
    by (metis of_nat_le_iff of_nat_numeral of_nat_power)
  moreover have "x < real (n + 1)" using True by (simp add: n_def) linarith
  ultimately have hi: "x < (2::real) ^ floorlog 2 n" by linarith
  have k1: "binary_exponent x + 1 = int (floorlog 2 n)" using k by simp
  have "(2::real) powi (binary_exponent x) = 2 ^ (floorlog 2 n - 1)"
    unfolding k' by (rule power_int_of_nat)
  moreover have "(2::real) powi (binary_exponent x + 1) = 2 ^ floorlog 2 n"
    unfolding k1 by (rule power_int_of_nat)
  ultimately show ?thesis using lo hi by simp
next
  case False
  with assms have x1: "x < 1" by simp
  define m where "m = nat (\<lceil>1 / x\<rceil> - 1)"
  define f where "f = floorlog 2 m"
  from assms x1 have "1 < 1 / x" by simp
  then have c2: "2 \<le> \<lceil>1 / x\<rceil>" by linarith
  then have m1: "0 < m" by (simp add: m_def)
  from floorlog_bounds[OF m1, of 2] have b: "2 ^ (f - 1) \<le> m" "m < 2 ^ f"
    by (simp_all add: f_def)
  from m1 b(2) have f1: "1 \<le> f"
    by (cases f) simp_all
  have k: "binary_exponent x = - int f"
    using False by (simp add: binary_exponent_def m_def f_def)
  have mx: "real m < 1 / x"
    using c2 by (simp add: m_def) linarith
  from b(1) have "(2::real) ^ (f - 1) \<le> real m"
    by (metis of_nat_le_iff of_nat_numeral of_nat_power)
  with mx have lo: "(2::real) ^ (f - 1) < 1 / x" by linarith
  from b(2) have "m + 1 \<le> 2 ^ f" by simp
  then have "real (m + 1) \<le> (2::real) ^ f"
    by (metis of_nat_le_iff of_nat_numeral of_nat_power)
  moreover have "1 / x \<le> real (m + 1)"
    using c2 by (simp add: m_def) linarith
  ultimately have hi: "1 / x \<le> (2::real) ^ f" by linarith
  from hi assms have a: "1 / (2::real) ^ f \<le> x"
    by (simp add: field_simps)
  from lo assms have b': "x < 1 / (2::real) ^ (f - 1)"
    by (simp add: field_simps)
  have p1: "(2::real) powi (- int f) = 1 / 2 ^ f"
    by (simp add: power_int_minus field_simps)
  have e: "- int f + 1 = - int (f - 1)" using f1 by simp
  have "(2::real) powi (- int (f - 1)) = inverse (2 powi int (f - 1))"
    by (rule power_int_minus)
  also have "\<dots> = 1 / 2 ^ (f - 1)"
    by (simp only: power_int_of_nat inverse_eq_divide)
  finally have p2: "(2::real) powi (- int f + 1) = 1 / 2 ^ (f - 1)"
    unfolding e .
  from a b' p1 p2 k show ?thesis by simp
qed

text \<open>The two embeddings of \<open>Apply\<close> return together and differ in the tracked peak
  only; a peak so large that \<open>release_amplitude\<close> is less than half the spacing of the
  floats around it is not lowered at all.\<close>

lemma Apply_binary32_agrees:
  "Apply s inp n = Inr t \<Longrightarrow>
   \<exists>t'. Apply_binary32 s inp n = Inr t' \<and> out t' = out t \<and> tail t' = tail t \<and>
        limited_ms t' = limited_ms t \<and> non_limited_ms t' = non_limited_ms t \<and>
        limit_scale t' = limit_scale t"
  by (auto simp: Apply_def Apply_binary32_def Release_def Release_binary32_def Let_def
        split: if_splits sum.splits)

lemma release_step_keeps_large_peak:
  "round_binary32 (4000000000 - release_amplitude_binary32) = 4000000000"
  by (simp add: binary32_defs upper_bound_def Let_def)

text \<open>Rounding keeps a value of at least 1 at or above 1, so the rounded release
  step keeps both peaks at or above 1 as the exact one does.\<close>

lemma round_half_even_ge_floor: "\<lfloor>y\<rfloor> \<le> round_half_even y"
  by (simp add: round_half_even_def Let_def)

lemma binary_exponent_lower:
  assumes "1 \<le> x"
  shows "0 \<le> binary_exponent x \<and> 2 powi (binary_exponent x) \<le> x"
proof -
  define n where "n = nat \<lfloor>x\<rfloor>"
  from assms have n1: "1 \<le> n" by (simp add: n_def le_nat_iff)
  then have f1: "1 \<le> floorlog 2 n"
    by (metis One_nat_def Suc_leI floorlog_eq_zero_iff gr0I not_less_eq_eq numeral_le_one_iff
          semiring_norm(69) le_zero_eq)
  have k: "binary_exponent x = int (floorlog 2 n - 1)"
    using assms f1 by (simp add: binary_exponent_def n_def)
  from floorlog_bounds[of n 2] n1 have "2 ^ (floorlog 2 n - 1) \<le> n" by simp
  then have "(2::real) ^ (floorlog 2 n - 1) \<le> real n"
    by (metis of_nat_le_iff of_nat_numeral of_nat_power)
  moreover have "real n \<le> x" using assms by (simp add: n_def)
  ultimately have "(2::real) ^ (floorlog 2 n - 1) \<le> x" by (rule order_trans)
  then show ?thesis by (simp add: k)
qed

lemma round_binary32_ge_one:
  assumes "1 \<le> x"
  shows "1 \<le> round_binary32 x"
proof -
  define k where "k = binary_exponent x"
  from binary_exponent_lower[OF assms] have k0: "0 \<le> k" and kx: "2 powi k \<le> x"
    by (simp_all add: k_def)
  define e where "e = k - 23"
  have emax: "max (binary_exponent \<bar>x\<bar> - 23) (- 149) = e"
    using assms k0 by (simp add: e_def k_def)
  have pe: "(2::real) powi e > 0" by simp
  have "(2::real) powi (23 + e) = 2 powi 23 * 2 powi e"
    by (rule power_int_add) simp
  then have split: "(2::real) powi k = 8388608 * 2 powi e"
    by (simp add: e_def)
  have "8388608 * 2 powi e \<le> x" using kx split by simp
  then have "8388608 \<le> x / 2 powi e" using pe by (simp add: le_divide_eq)
  then have "8388608 \<le> \<lfloor>x / 2 powi e\<rfloor>" by (simp add: le_floor_iff)
  with round_half_even_ge_floor[of "x / 2 powi e"]
  have "8388608 \<le> round_half_even (x / 2 powi e)" by linarith
  then have "(8388608::real) \<le> of_int (round_half_even (x / 2 powi e))" by linarith
  then have m: "8388608 * (2::real) powi e
                  \<le> real_of_int (round_half_even (x / 2 powi e)) * 2 powi e"
    using pe by (simp add: mult_right_mono)
  have "(1::real) \<le> 2 powi k" using k0 by (simp add: one_le_power_int)
  then have "(1::real) \<le> 8388608 * 2 powi e" using split by simp
  from this m have "1 \<le> real_of_int (round_half_even (x / 2 powi e)) * 2 powi e"
    by (rule order_trans)
  moreover have "round_binary32 x = real_of_int (round_half_even (x / 2 powi e)) * 2 powi e"
    using assms emax by (simp add: round_binary32_def Let_def)
  ultimately show ?thesis by simp
qed

lemma Release_binary32_floor:
  "1 \<le> left (peak s) \<Longrightarrow> 1 \<le> right (peak s) \<Longrightarrow>
   1 \<le> left (peak (Release_binary32 s)) \<and> 1 \<le> right (peak (Release_binary32 s))"
  by (auto simp: Release_binary32_fields release_amplitude_binary32_value upper_bound_def
        intro!: round_binary32_ge_one)

text \<open>
  C5, as claimed: after the tail capture \<open>Apply\<close> adds one to \<open>limited_ms\<close>, takes exactly
  \<open>bound * 0.002709201\<close> off a tracked peak above the bound, and leaves a peak at or
  below the bound alone. The subtraction is a float operation, so the amount is not
  exact: with two frames per block and the block \<open>[0, 0, 40000, 0]\<close> the left peak is
  40000 after the tail capture and 39911.2265625 after the call, which is not
  \<open>40000 - 32767 * 0.002709201\<close>.
\<close>

theorem Apply_binary32_decrement_not_exact:
  "FindPeaks (SoftLimiter [0, 0, 0, 0] ''GUS'' \<lparr>left = 1, right = 1\<rparr>) [0, 0, 40000, 0] (2 * 2) =
   Inr (\<lparr>out = [0, 0, 32767, 0], channel_name = ''GUS'',
        prescale = \<lparr>left = 1, right = 1\<rparr>,
        limit_scale = \<lparr>left = 32767 / 40000, right = 1\<rparr>,
        peak = \<lparr>left = 40000, right = 1\<rparr>,
        tail = \<lparr>left = 32767, right = 0\<rparr>, peak_pos_left = Some 2,
        peak_pos_right = None, limited_ms = 0, non_limited_ms = 0,
        remaining_incr_left = 0, remaining_incr_right = 0\<rparr>\<lparr>tail := \<lparr>left = 0, right = 0\<rparr>\<rparr>) \<and>
   SaveTailFrame (\<lparr>out = [0, 0, 32767, 0], channel_name = ''GUS'',
        prescale = \<lparr>left = 1, right = 1\<rparr>,
        limit_scale = \<lparr>left = 32767 / 40000, right = 1\<rparr>,
        peak = \<lparr>left = 40000, right = 1\<rparr>,
        tail = \<lparr>left = 32767, right = 0\<rparr>, peak_pos_left = Some 2,
        peak_pos_right = None, limited_ms = 0, non_limited_ms = 0,
        remaining_incr_left = 0, remaining_incr_right = 0\<rparr>\<lparr>tail := \<lparr>left = 0, right = 0\<rparr>\<rparr>) 2 =
   Inr \<lparr>out = [0, 0, 32767, 0], channel_name = ''GUS'',
        prescale = \<lparr>left = 1, right = 1\<rparr>,
        limit_scale = \<lparr>left = 32767 / 40000, right = 1\<rparr>,
        peak = \<lparr>left = 40000, right = 1\<rparr>,
        tail = \<lparr>left = 32767, right = 0\<rparr>, peak_pos_left = Some 2,
        peak_pos_right = None, limited_ms = 0, non_limited_ms = 0,
        remaining_incr_left = 0, remaining_incr_right = 0\<rparr> \<and>
   Apply_binary32 (SoftLimiter [0, 0, 0, 0] ''GUS'' \<lparr>left = 1, right = 1\<rparr>) [0, 0, 40000, 0] 2 =
   Inr (Release_binary32 \<lparr>out = [0, 0, 32767, 0], channel_name = ''GUS'',
        prescale = \<lparr>left = 1, right = 1\<rparr>,
        limit_scale = \<lparr>left = 32767 / 40000, right = 1\<rparr>,
        peak = \<lparr>left = 40000, right = 1\<rparr>,
        tail = \<lparr>left = 32767, right = 0\<rparr>, peak_pos_left = Some 2,
        peak_pos_right = None, limited_ms = 0, non_limited_ms = 0,
        remaining_incr_left = 0, remaining_incr_right = 0\<rparr>) \<and>
   upper_bound < left (peak \<lparr>out = [0, 0, 32767, 0], channel_name = ''GUS'',
        prescale = \<lparr>left = 1, right = 1\<rparr>,
        limit_scale = \<lparr>left = 32767 / 40000, right = 1\<rparr>,
        peak = \<lparr>left = 40000, right = 1\<rparr>,
        tail = \<lparr>left = 32767, right = 0\<rparr>, peak_pos_left = Some 2,
        peak_pos_right = None, limited_ms = 0, non_limited_ms = 0,
        remaining_incr_left = 0, remaining_incr_right = 0\<rparr>) \<and>
   left (peak (Release_binary32 \<lparr>out = [0, 0, 32767, 0], channel_name = ''GUS'',
        prescale = \<lparr>left = 1, right = 1\<rparr>,
        limit_scale = \<lparr>left = 32767 / 40000, right = 1\<rparr>,
        peak = \<lparr>left = 40000, right = 1\<rparr>,
        tail = \<lparr>left = 32767, right = 0\<rparr>, peak_pos_left = Some 2,
        peak_pos_right = None, limited_ms = 0, non_limited_ms = 0,
        remaining_incr_left = 0, remaining_incr_right = 0\<rparr>)) = 5108637 / 128 \<and>
   left (peak (Release_binary32 \<lparr>out = [0, 0, 32767, 0], channel_name = ''GUS'',
        prescale = \<lparr>left = 1, right = 1\<rparr>,
        limit_scale = \<lparr>left = 32767 / 40000, right = 1\<rparr>,
        peak = \<lparr>left = 40000, right = 1\<rparr>,
        tail = \<lparr>left = 32767, right = 0\<rparr>, peak_pos_left = Some 2,
        peak_pos_right = None, limited_ms = 0, non_limited_ms = 0,
        remaining_incr_left = 0, remaining_incr_right = 0\<rparr>)) \<noteq>
     left (peak \<lparr>out = [0, 0, 32767, 0], channel_name = ''GUS'',
        prescale = \<lparr>left = 1, right = 1\<rparr>,
        limit_scale = \<lparr>left = 32767 / 40000, right = 1\<rparr>,
        peak = \<lparr>left = 40000, right = 1\<rparr>,
        tail = \<lparr>left = 32767, right = 0\<rparr>, peak_pos_left = Some 2,
        peak_pos_right = None, limited_ms = 0, non_limited_ms = 0,
        remaining_incr_left = 0, remaining_incr_right = 0\<rparr>) - upper_bound * 0.002709201"
  using tail_capture_at_new_left_peak Apply_binary32_new_left_peak
  by (simp add: binary32_defs upper_bound_def)

text \<open>
  C5, amended. Every \<open>Apply\<close> that returns is \<open>FindPeaks\<close>, then \<open>SaveTailFrame\<close>, then the
  release step. The release step adds exactly one to \<open>limited_ms\<close>. A channel whose
  tracked peak is above the bound gets the binary32 difference of the peak and
  \<open>release_amplitude\<close>, that is the float nearest to the exact difference, where
  \<open>release_amplitude\<close> is the float product of the bound and \<open>0.002709201f\<close>,
  \<open>11635575 / 131072\<close>, within \<open>1 / 100000\<close> of \<open>bound * 0.002709201\<close>. A channel whose
  peak is at or below the bound keeps it. Tail and output are those of the state
  after the tail capture.
\<close>

theorem Apply_binary32_release:
  "Apply_binary32 s inp n = Inr s' \<Longrightarrow>
   \<exists>s1 s2. FindPeaks s inp (n * 2) = Inr s1 \<and> SaveTailFrame s1 n = Inr s2 \<and>
     s' = Release_binary32 s2 \<and>
     limited_ms s' = limited_ms s + 1 \<and>
     left (peak s') =
       (if left (peak s2) > upper_bound
        then round_binary32 (left (peak s2) - release_amplitude_binary32)
        else left (peak s2)) \<and>
     right (peak s') =
       (if right (peak s2) > upper_bound
        then round_binary32 (right (peak s2) - release_amplitude_binary32)
        else right (peak s2)) \<and>
     release_amplitude_binary32 = round_binary32 (upper_bound * round_binary32 0.002709201) \<and>
     release_amplitude_binary32 = 11635575 / 131072 \<and>
     \<bar>release_amplitude_binary32 - upper_bound * 0.002709201\<bar> < 1 / 100000 \<and>
     tail s' = tail s2 \<and> out s' = out s2"
proof -
  assume a: "Apply_binary32 s inp n = Inr s'"
  then obtain s1 s2 where h: "FindPeaks s inp (n * 2) = Inr s1" "SaveTailFrame s1 n = Inr s2"
    "s' = Release_binary32 s2"
    using Apply_binary32_Inr by blast
  have l: "limited_ms s2 = limited_ms s"
    using h FindPeaks_frame SaveTailFrame_frame by metis
  have c: "release_amplitude_binary32 = round_binary32 (upper_bound * round_binary32 0.002709201)"
    by (simp add: release_amplitude_binary32_def delta_db_binary32_def)
  have d: "\<bar>release_amplitude_binary32 - upper_bound * 0.002709201\<bar> < 1 / 100000"
    by (simp add: release_amplitude_binary32_value upper_bound_def)
  from l c d h show ?thesis
    by (simp add: Release_binary32_fields release_amplitude_binary32_value [symmetric])
qed

theorem Apply_binary32_release_witness:
  "Apply_binary32 (SoftLimiter [0, 0, 0, 0] ''GUS'' \<lparr>left = 1, right = 1\<rparr>) [0, 0, 40000, 0] 2 =
   Inr \<lparr>out = [0, 0, 32767, 0], channel_name = ''GUS'',
        prescale = \<lparr>left = 1, right = 1\<rparr>,
        limit_scale = \<lparr>left = 32767 / 40000, right = 1\<rparr>,
        peak = \<lparr>left = 5108637 / 128, right = 1\<rparr>,
        tail = \<lparr>left = 32767, right = 0\<rparr>, peak_pos_left = Some 2,
        peak_pos_right = None, limited_ms = 1, non_limited_ms = 0,
        remaining_incr_left = 0, remaining_incr_right = 0\<rparr> \<and>
   (\<exists>s1 s2.
      FindPeaks (SoftLimiter [0, 0, 0, 0] ''GUS'' \<lparr>left = 1, right = 1\<rparr>) [0, 0, 40000, 0] (2 * 2) = Inr s1 \<and>
      SaveTailFrame s1 2 = Inr s2 \<and>
      left (peak s2) = 40000 \<and> right (peak s2) = 1 \<and>
      round_binary32 (left (peak s2) - release_amplitude_binary32) = 5108637 / 128 \<and>
      tail s2 = \<lparr>left = 32767, right = 0\<rparr> \<and> out s2 = [0, 0, 32767, 0])"
proof -
  from Apply_binary32_release [OF Apply_binary32_new_left_peak]
  obtain s1 s2 where h:
    "FindPeaks (SoftLimiter [0, 0, 0, 0] ''GUS'' \<lparr>left = 1, right = 1\<rparr>) [0, 0, 40000, 0] (2 * 2) = Inr s1"
    "SaveTailFrame s1 2 = Inr s2"
    "left (peak \<lparr>out = [0, 0, 32767, 0], channel_name = ''GUS'',
        prescale = \<lparr>left = 1, right = 1\<rparr>,
        limit_scale = \<lparr>left = 32767 / 40000, right = 1\<rparr>,
        peak = \<lparr>left = 5108637 / 128, right = 1\<rparr>,
        tail = \<lparr>left = 32767, right = 0\<rparr>, peak_pos_left = Some 2,
        peak_pos_right = None, limited_ms = 1, non_limited_ms = 0,
        remaining_incr_left = 0, remaining_incr_right = 0\<rparr>) =
       (if left (peak s2) > upper_bound
        then round_binary32 (left (peak s2) - release_amplitude_binary32)
        else left (peak s2))"
    "tail \<lparr>out = [0, 0, 32767, 0], channel_name = ''GUS'',
        prescale = \<lparr>left = 1, right = 1\<rparr>,
        limit_scale = \<lparr>left = 32767 / 40000, right = 1\<rparr>,
        peak = \<lparr>left = 5108637 / 128, right = 1\<rparr>,
        tail = \<lparr>left = 32767, right = 0\<rparr>, peak_pos_left = Some 2,
        peak_pos_right = None, limited_ms = 1, non_limited_ms = 0,
        remaining_incr_left = 0, remaining_incr_right = 0\<rparr> = tail s2"
    "out \<lparr>out = [0, 0, 32767, 0], channel_name = ''GUS'',
        prescale = \<lparr>left = 1, right = 1\<rparr>,
        limit_scale = \<lparr>left = 32767 / 40000, right = 1\<rparr>,
        peak = \<lparr>left = 5108637 / 128, right = 1\<rparr>,
        tail = \<lparr>left = 32767, right = 0\<rparr>, peak_pos_left = Some 2,
        peak_pos_right = None, limited_ms = 1, non_limited_ms = 0,
        remaining_incr_left = 0, remaining_incr_right = 0\<rparr> = out s2"
    by blast
  from h(1,2) tail_capture_at_new_left_peak have s2:
    "s2 = \<lparr>out = [0, 0, 32767, 0], channel_name = ''GUS'',
        prescale = \<lparr>left = 1, right = 1\<rparr>,
        limit_scale = \<lparr>left = 32767 / 40000, right = 1\<rparr>,
        peak = \<lparr>left = 40000, right = 1\<rparr>,
        tail = \<lparr>left = 32767, right = 0\<rparr>, peak_pos_left = Some 2,
        peak_pos_right = None, limited_ms = 0, non_limited_ms = 0,
        remaining_incr_left = 0, remaining_incr_right = 0\<rparr>"
    by simp
  then have "left (peak s2) = 40000" "right (peak s2) = 1" by simp_all
  moreover from h(3) this have
    "round_binary32 (left (peak s2) - release_amplitude_binary32) = 5108637 / 128"
    by (simp add: upper_bound_def)
  moreover from s2 have "tail s2 = \<lparr>left = 32767, right = 0\<rparr>" "out s2 = [0, 0, 32767, 0]"
    by simp_all
  ultimately show ?thesis using h(1,2) Apply_binary32_new_left_peak by blast
qed


subsection \<open>The tracked peak\<close>











subsection \<open>Diagnostics\<close>



subsection \<open>The capacity assertion\<close>

text \<open>Below 32768 frames the doubled count does not wrap, and the assertion rejects
  every request that exceeds the capacity.\<close>

lemma Apply_rejects_oversized_request:
  "unat n < 32768 \<Longrightarrow> length inp < 2 * unat n \<Longrightarrow> Apply s inp n = Inl AssertionFailed"
  by (simp add: Apply_def Let_def unat_twice)

text \<open>
  C8. Claimed: every frame count whose double exceeds the capacity fails the
  assertion of \<open>Apply\<close>.

  \<open>samples\<close> is a \<open>uint16_t\<close>, so the doubled count is reduced modulo 65536 before it
  is compared. For \<open>frameCount = 32768\<close> it is 0: the assertion holds for a block of
  four slots, the scan and the scaling run, and \<open>SaveTailFrame\<close> reads \<open>out[65534]\<close>.
\<close>

theorem Apply_assert_wraps:
  "Apply (SoftLimiter [0, 0, 0, 0] ''GUS'' \<lparr>left = 1, right = 1\<rparr>) [0, 0, 0, 0] 32768
   = Inl OutOfBounds"
  by (simp add: eval_defs)

subsection \<open>Writes beyond the requested frames\<close>

text \<open>
  What a call with a frame count below the block size does overwrite. Let \<open>Apply\<close>
  return. Run from the same state with any other content \<open>o2\<close> of the output buffer,
  the call returns as well, and the two returned blocks hold the same value at
  every left slot (even index), in every branch; they also agree at the right slots
  up to \<open>size - 3\<close> when the right channel has no new peak (no scanned right sample
  times the right prescale exceeds both the tracked right peak and the bound). Peak
  detection depends on the first \<open>2 * frameCount\<close> input slots only.
\<close>

lemma Apply_overwritten_slots:
  assumes ws: "well_sized array_frames s inp"
    and n: "unat n < array_frames"
    and len: "length o2 = length (out s)"
    and A: "Apply s inp n = Inr t"
  shows "(\<exists>t2. Apply (s\<lparr>out := o2\<rparr>) inp n = Inr t2 \<and>
           (\<forall>j < array_frames * 2.
              (even j \<or>
               (j + 3 \<le> array_frames * 2 \<and>
                (\<forall>i < 2 * unat n. odd i \<longrightarrow> \<bar>inp ! i\<bar> * right (prescale s)
                      \<le> max (right (peak s)) upper_bound)))
              \<longrightarrow> out t2 ! j = out t ! j)) \<and>
         (\<forall>inp'. length inp' = length inp \<and> (\<forall>i < 2 * unat n. inp' ! i = inp ! i) \<longrightarrow>
            FindPeaks_loop inp' 0 (unat (n * 2)) \<lparr>left = 0, right = 0\<rparr>
                (peak_pos_left s) (peak_pos_right s) =
            FindPeaks_loop inp 0 (unat (n * 2)) \<lparr>left = 0, right = 0\<rparr>
                (peak_pos_left s) (peak_pos_right s))"
proof -
  from ws n have n16: "unat n < 16384" by (simp add: well_sized_def)
  then have un: "unat (n * 2) = 2 * unat n" by (simp add: unat_twice)
  from ws have li: "length inp = array_frames * 2" by (simp add: well_sized_def)
  from Apply_Inr[OF A] obtain s1 s2 where
    F1: "FindPeaks s inp (n * 2) = Inr s1" and S1: "SaveTailFrame s1 n = Inr s2"
    and t: "t = Release s2" by blast
  have evs: "even (unat (n * 2))" by (simp add: un)
  from FindPeaks_agree[OF F1 len evs] obtain s1' where
    F2: "FindPeaks (s\<lparr>out := o2\<rparr>) inp (n * 2) = Inr s1'"
    and l: "length (out s1) = length (out s)" "length (out s1') = length (out s)"
    and ag: "\<forall>j. (even j \<and> j + 2 \<le> length inp) \<or>
                 (odd j \<and> j + 3 \<le> length inp \<and>
                  (\<forall>i < unat (n * 2). odd i \<longrightarrow> \<bar>inp ! i\<bar> * right (prescale s)
                        \<le> max (right (peak s)) upper_bound))
                \<longrightarrow> out s1 ! j = out s1' ! j"
    by blast
  from l have "length (out s1') = length (out s1)" by simp
  from SaveTailFrame_same_length[OF S1 this] obtain s2' where
    S2: "SaveTailFrame s1' n = Inr s2'" and o2': "out s2' = out s1'" by blast
  have asrt: "unat (n * 2) \<le> length inp" using un li n by simp
  have A2: "Apply (s\<lparr>out := o2\<rparr>) inp n = Inr (Release s2')"
    using asrt F2 S2 by (simp add: Apply_def Let_def)
  have ot: "out t = out s1" using t S1 by (simp add: Release_fields SaveTailFrame_frame)
  have ot2: "out (Release s2') = out s1'" using o2' by (simp add: Release_fields)
  have "out (Release s2') ! j = out t ! j"
    if j: "j < array_frames * 2"
      and h: "even j \<or>
               (j + 3 \<le> array_frames * 2 \<and>
                (\<forall>i < 2 * unat n. odd i \<longrightarrow> \<bar>inp ! i\<bar> * right (prescale s)
                      \<le> max (right (peak s)) upper_bound))" for j
  proof (cases "even j")
    case True
    with j have "even j \<and> j + 2 \<le> length inp" unfolding li by presburger
    with ag show ?thesis by (simp add: ot ot2)
  next
    case False
    with h li un have "odd j \<and> j + 3 \<le> length inp \<and>
                  (\<forall>i < unat (n * 2). odd i \<longrightarrow> \<bar>inp ! i\<bar> * right (prescale s)
                        \<le> max (right (peak s)) upper_bound)" by simp
    with ag show ?thesis by (simp add: ot ot2)
  qed
  with A2 have part1: "\<exists>t2. Apply (s\<lparr>out := o2\<rparr>) inp n = Inr t2 \<and>
           (\<forall>j < array_frames * 2.
              (even j \<or>
               (j + 3 \<le> array_frames * 2 \<and>
                (\<forall>i < 2 * unat n. odd i \<longrightarrow> \<bar>inp ! i\<bar> * right (prescale s)
                      \<le> max (right (peak s)) upper_bound)))
              \<longrightarrow> out t2 ! j = out t ! j)" by blast
  have part2: "FindPeaks_loop inp' 0 (unat (n * 2)) \<lparr>left = 0, right = 0\<rparr>
                (peak_pos_left s) (peak_pos_right s) =
            FindPeaks_loop inp 0 (unat (n * 2)) \<lparr>left = 0, right = 0\<rparr>
                (peak_pos_left s) (peak_pos_right s)"
    if "length inp' = length inp \<and> (\<forall>i < 2 * unat n. inp' ! i = inp ! i)" for inp'
    using that FindPeaks_loop_prefix[of "unat (n * 2)" inp' inp 0] evs un by simp
  from part1 part2 show ?thesis by blast
qed


text \<open>
  C9. Claimed: for a frame count below the block size only peak detection is
  restricted to the requested frames; the scaling pass of every branch writes the
  output over the whole array, so the positions beyond \<open>2 * frameCount - 1\<close> are
  overwritten too.

  The right pass ends at \<open>in.end() - 3\<close>, one frame before the left pass does, and
  never reaches the last right slot. With two frames per block and one requested
  frame, position 3 of the returned block is whatever the buffer held (9 in one
  run, 8 in the other), whatever the input there.
\<close>

theorem Apply_keeps_last_right_slot:
  "Apply_out (SoftLimiter [9, 9, 9, 9] ''GUS'' \<lparr>left = 1, right = 1\<rparr>) [1, 2, 3, 4] 1
     = Inr [1, 2, 3, 9] \<and>
   Apply_out (SoftLimiter [8, 8, 8, 8] ''GUS'' \<lparr>left = 1, right = 1\<rparr>) [1, 2, 3, 4] 1
     = Inr [1, 2, 3, 8]"
  by (simp add: eval_defs)

subsection \<open>The time counters\<close>

lemma sint_of_nat_32:
  "k < 2 ^ 31 \<Longrightarrow> sint (of_nat k :: 32 word) = int k"
proof -
  assume "k < 2 ^ 31"
  then have "int k < 2 ^ 31" by (metis of_nat_less_iff of_nat_numeral of_nat_power)
  then show ?thesis
    by (simp add: signed_of_nat signed_take_bit_int_eq_self)
qed

lemma Apply_counters:
  "Apply s inp n = Inr s' \<Longrightarrow>
   limited_ms s' = limited_ms s + 1 \<and> non_limited_ms s' = non_limited_ms s"
proof -
  assume "Apply s inp n = Inr s'"
  then obtain s1 s2 where h: "FindPeaks s inp (n * 2) = Inr s1" "SaveTailFrame s1 n = Inr s2"
    "s' = Release s2"
    using Apply_Inr by blast
  from FindPeaks_frame[OF h(1)] SaveTailFrame_frame[OF h(2)] h(3)
  show ?thesis by (simp add: Release_fields)
qed

lemma run_counters:
  "run s ops = Inr s' \<Longrightarrow> non_limited_ms s = 0 \<Longrightarrow> limited_ms s = of_nat k \<Longrightarrow>
   limited_ms s' = of_nat (applies_since_reset k ops) \<and> non_limited_ms s' = 0"
proof (induction ops arbitrary: s k)
  case Nil
  then show ?case by simp
next
  case (Cons x xs)
  from Cons.prems(1) obtain s1 where s1: "step s x = Inr s1" "run s1 xs = Inr s'"
    by (auto split: sum.splits)
  show ?case
  proof (cases x)
    case (OpApply inp n)
    with s1 have "Apply s inp n = Inr s1" by simp
    from Apply_counters[OF this] Cons.prems(2,3)
    have "non_limited_ms s1 = 0" "limited_ms s1 = of_nat (Suc k)" by simp_all
    from Cons.IH[OF s1(2) this] OpApply show ?thesis by simp
  next
    case OpReset
    with s1 have "non_limited_ms s1 = 0" "limited_ms s1 = of_nat 0" by (auto simp: Reset_def)
    from Cons.IH[OF s1(2) this] OpReset show ?thesis by simp
  next
    case OpGetPeaks
    with s1 Cons.prems have "non_limited_ms s1 = 0" "limited_ms s1 = of_nat k" by auto
    from Cons.IH[OF s1(2) this] OpGetPeaks show ?thesis by simp
  next
    case OpPrintStats
    with s1 Cons.prems have "non_limited_ms s1 = 0" "limited_ms s1 = of_nat k" by auto
    from Cons.IH[OF s1(2) this] OpPrintStats show ?thesis by simp
  qed
qed


text \<open>
  C10. \<open>Apply\<close> adds one to \<open>limited_ms\<close> on every call that returns and leaves
  \<open>non_limited_ms\<close> alone; no operation changes \<open>non_limited_ms\<close> except \<open>Reset\<close>, which
  sets it to 0. So after any sequence of calls on a fresh instance, \<open>limited_ms\<close> is
  the number \<open>k\<close> of \<open>Apply\<close> calls since construction or the last \<open>Reset\<close> (as a 32-bit
  value) and \<open>non_limited_ms\<close> is 0; for \<open>k\<close> in the range of \<open>int\<close> the limited-time
  fraction of \<open>PrintStats\<close> is \<open>k / (k + 1)\<close>.
\<close>

theorem non_limited_ms_never_counts:
  "(Apply s inp n = Inr s' \<longrightarrow>
      limited_ms s' = limited_ms s + 1 \<and> non_limited_ms s' = non_limited_ms s) \<and>
   (step s x = Inr s' \<longrightarrow>
      non_limited_ms s' = non_limited_ms s \<or> (x = OpReset \<and> non_limited_ms s' = 0)) \<and>
   (run (SoftLimiter out0 name scale) ops = Inr t \<longrightarrow>
      limited_ms t = of_nat (applies_since_reset 0 ops) \<and> non_limited_ms t = 0 \<and>
      (applies_since_reset 0 ops < 2 ^ 31 \<longrightarrow>
         time_ratio t = real (applies_since_reset 0 ops) / (real (applies_since_reset 0 ops) + 1)))"
proof -
  have a: "limited_ms s' = limited_ms s + 1 \<and> non_limited_ms s' = non_limited_ms s"
    if "Apply s inp n = Inr s'" using Apply_counters[OF that] .
  have b: "non_limited_ms s' = non_limited_ms s \<or> (x = OpReset \<and> non_limited_ms s' = 0)"
    if "step s x = Inr s'"
    using that by (cases x) (auto simp: Reset_def dest: Apply_counters)
  have c: "limited_ms t = of_nat (applies_since_reset 0 ops) \<and> non_limited_ms t = 0 \<and>
      (applies_since_reset 0 ops < 2 ^ 31 \<longrightarrow>
         time_ratio t = real (applies_since_reset 0 ops) / (real (applies_since_reset 0 ops) + 1))"
    if r: "run (SoftLimiter out0 name scale) ops = Inr t"
  proof -
    have "non_limited_ms (SoftLimiter out0 name scale) = 0"
      "limited_ms (SoftLimiter out0 name scale) = of_nat 0"
      by (simp_all add: SoftLimiter_def)
    from run_counters[OF r this] have
      c1: "limited_ms t = of_nat (applies_since_reset 0 ops)" "non_limited_ms t = 0" by simp_all
    then show ?thesis by (simp add: time_ratio_def sint_of_nat_32)
  qed
  from a b c show ?thesis by blast
qed

lemma run_three_applies:
  "run (SoftLimiter [0, 0] ''GUS'' \<lparr>left = 1, right = 1\<rparr>)
     [OpApply [0, 0] 1, OpReset, OpApply [0, 0] 1, OpPrintStats, OpApply [0, 0] 1, OpGetPeaks] =
   Inr \<lparr>out = [0, 0], channel_name = ''GUS'',
        prescale = \<lparr>left = 1, right = 1\<rparr>,
        limit_scale = \<lparr>left = 1, right = 1\<rparr>, peak = \<lparr>left = 1, right = 1\<rparr>,
        tail = \<lparr>left = 0, right = 0\<rparr>, peak_pos_left = None,
        peak_pos_right = None, limited_ms = 2, non_limited_ms = 0,
        remaining_incr_left = 0, remaining_incr_right = 0\<rparr>"
  by (simp add: eval_defs Reset_def)

lemma Apply_silence:
  "Apply (SoftLimiter [0, 0] ''GUS'' \<lparr>left = 1, right = 1\<rparr>) [0, 0] 1 =
   Inr \<lparr>out = [0, 0], channel_name = ''GUS'',
        prescale = \<lparr>left = 1, right = 1\<rparr>,
        limit_scale = \<lparr>left = 1, right = 1\<rparr>, peak = \<lparr>left = 1, right = 1\<rparr>,
        tail = \<lparr>left = 0, right = 0\<rparr>, peak_pos_left = None,
        peak_pos_right = None, limited_ms = 1, non_limited_ms = 0,
        remaining_incr_left = 0, remaining_incr_right = 0\<rparr>"
  by (simp add: eval_defs)

theorem non_limited_ms_never_counts_witness:
  "run (SoftLimiter [0, 0] ''GUS'' \<lparr>left = 1, right = 1\<rparr>)
     [OpApply [0, 0] 1, OpReset, OpApply [0, 0] 1, OpPrintStats, OpApply [0, 0] 1, OpGetPeaks] =
   Inr \<lparr>out = [0, 0], channel_name = ''GUS'',
        prescale = \<lparr>left = 1, right = 1\<rparr>,
        limit_scale = \<lparr>left = 1, right = 1\<rparr>, peak = \<lparr>left = 1, right = 1\<rparr>,
        tail = \<lparr>left = 0, right = 0\<rparr>, peak_pos_left = None,
        peak_pos_right = None, limited_ms = 2, non_limited_ms = 0,
        remaining_incr_left = 0, remaining_incr_right = 0\<rparr> \<and>
   applies_since_reset 0
     [OpApply [0, 0] 1, OpReset, OpApply [0, 0] 1, OpPrintStats, OpApply [0, 0] 1, OpGetPeaks]
     = 2 \<and>
   time_ratio \<lparr>out = [0, 0], channel_name = ''GUS'',
        prescale = \<lparr>left = 1, right = 1\<rparr>,
        limit_scale = \<lparr>left = 1, right = 1\<rparr>, peak = \<lparr>left = 1, right = 1\<rparr>,
        tail = \<lparr>left = 0, right = 0\<rparr>, peak_pos_left = None,
        peak_pos_right = None, limited_ms = 2, non_limited_ms = 0,
        remaining_incr_left = 0, remaining_incr_right = 0\<rparr> = 2 / 3 \<and>
   Apply (SoftLimiter [0, 0] ''GUS'' \<lparr>left = 1, right = 1\<rparr>) [0, 0] 1 =
   Inr \<lparr>out = [0, 0], channel_name = ''GUS'',
        prescale = \<lparr>left = 1, right = 1\<rparr>,
        limit_scale = \<lparr>left = 1, right = 1\<rparr>, peak = \<lparr>left = 1, right = 1\<rparr>,
        tail = \<lparr>left = 0, right = 0\<rparr>, peak_pos_left = None,
        peak_pos_right = None, limited_ms = 1, non_limited_ms = 0,
        remaining_incr_left = 0, remaining_incr_right = 0\<rparr> \<and>
   step (SoftLimiter [0, 0] ''GUS'' \<lparr>left = 1, right = 1\<rparr>) OpReset = Inr (Reset (SoftLimiter [0, 0] ''GUS'' \<lparr>left = 1, right = 1\<rparr>)) \<and> non_limited_ms (Reset (SoftLimiter [0, 0] ''GUS'' \<lparr>left = 1, right = 1\<rparr>)) = 0"
proof -
  note th = non_limited_ms_never_counts [where ?out0.0 = "[0, 0]" and name = "''GUS''"
      and scale = "\<lparr>left = 1, right = 1\<rparr>"
      and ops = "[OpApply [0, 0] 1, OpReset, OpApply [0, 0] 1, OpPrintStats, OpApply [0, 0] 1,
                  OpGetPeaks]"]
  have k: "applies_since_reset 0
     [OpApply [0, 0] 1, OpReset, OpApply [0, 0] 1, OpPrintStats, OpApply [0, 0] 1, OpGetPeaks]
     = 2" by simp
  from th [where s = "(SoftLimiter [0, 0] ''GUS'' \<lparr>left = 1, right = 1\<rparr>)" and x = OpReset and s' = "Reset (SoftLimiter [0, 0] ''GUS'' \<lparr>left = 1, right = 1\<rparr>)"]
    run_three_applies k
  have "time_ratio \<lparr>out = [0, 0], channel_name = ''GUS'',
        prescale = \<lparr>left = 1, right = 1\<rparr>,
        limit_scale = \<lparr>left = 1, right = 1\<rparr>, peak = \<lparr>left = 1, right = 1\<rparr>,
        tail = \<lparr>left = 0, right = 0\<rparr>, peak_pos_left = None,
        peak_pos_right = None, limited_ms = 2, non_limited_ms = 0,
        remaining_incr_left = 0, remaining_incr_right = 0\<rparr> = 2 / 3"
    by simp
  moreover from th [where s = "(SoftLimiter [0, 0] ''GUS'' \<lparr>left = 1, right = 1\<rparr>)" and x = OpReset and s' = "Reset (SoftLimiter [0, 0] ''GUS'' \<lparr>left = 1, right = 1\<rparr>)"]
  have "non_limited_ms (Reset (SoftLimiter [0, 0] ''GUS'' \<lparr>left = 1, right = 1\<rparr>)) = 0" by (simp add: SoftLimiter_def)
  ultimately show ?thesis using run_three_applies Apply_silence k by simp
qed

end
